theory Spec2Isabelle
  imports Main "HOL-Library.Sublist"
begin

section \<open>Byte strings of Python 2\<close>

text \<open>
  A Python 2 \<open>str\<close> is a sequence of bytes, modelled as \<open>string\<close>. The operations below
  are the ones the analyzer and the VirusTotal wrapper call on it.
\<close>

text \<open>The bytes that \<open>str.strip()\<close> removes: space, tab, line feed, vertical tab,
  form feed, carriage return.\<close>

definition is_space :: "char \<Rightarrow> bool" where
  "is_space c \<longleftrightarrow>
     c = CHR '' '' \<or> c = CHR 0x09 \<or> c = CHR 0x0A \<or> c = CHR 0x0B \<or> c = CHR 0x0C \<or> c = CHR 0x0D"

text \<open>\<open>s.strip()\<close>: drop the leading and the trailing whitespace.\<close>

definition strip :: "string \<Rightarrow> string" where
  "strip s = rev (dropWhile is_space (rev (dropWhile is_space s)))"

text \<open>\<open>s.split(sep)\<close> for a one-character separator, and \<open>re.split\<close> for a character
  class: the string is cut at every separator, so n separators give n + 1 pieces,
  empty pieces included. The result is never empty, so the first branch of the
  \<open>case\<close> is never taken.\<close>

fun split_on :: "(char \<Rightarrow> bool) \<Rightarrow> string \<Rightarrow> string list" where
  "split_on p [] = [[]]"
| "split_on p (c # cs) =
     (if p c then [] # split_on p cs
      else (case split_on p cs of [] \<Rightarrow> [[c]] | w # ws \<Rightarrow> (c # w) # ws))"

text \<open>\<open>s.lower()\<close> on a byte string: the ASCII capitals are mapped to small letters.\<close>

definition lower_char :: "char \<Rightarrow> char" where
  "lower_char c =
     (case map_of (zip ''ABCDEFGHIJKLMNOPQRSTUVWXYZ'' ''abcdefghijklmnopqrstuvwxyz'') c of
        None \<Rightarrow> c
      | Some l \<Rightarrow> l)"

definition lower :: "string \<Rightarrow> string" where
  "lower s = map lower_char s"

section \<open>The option parser: \<open>Analyzer.get_options\<close>\<close>

text \<open>
  \<open>key, value = field.strip().split("=")\<close> raises \<open>ValueError\<close> unless the split gives
  exactly two pieces. The model returns \<open>None\<close> where the source raises.
\<close>

definition unpack_pair :: "string list \<Rightarrow> (string \<times> string) option" where
  "unpack_pair parts = (case parts of [key, val] \<Rightarrow> Some (key, val) | _ \<Rightarrow> None)"

text \<open>The body of the \<open>for field in fields\<close> loop. The state is the dictionary built so
  far and the fields for which \<open>log.warning\<close> was called, oldest first.\<close>

definition parse_field ::
  "(string \<rightharpoonup> string) \<times> string list \<Rightarrow> string \<Rightarrow> (string \<rightharpoonup> string) \<times> string list" where
  "parse_field st field =
     (case unpack_pair (split_on (\<lambda>c. c = CHR ''='') (strip field)) of
        None \<Rightarrow> (fst st, snd st @ [field])
      | Some (key, val) \<Rightarrow> ((fst st)(strip key \<mapsto> strip val), snd st))"

text \<open>\<open>get_options\<close>: \<open>self.config.options\<close> is \<open>None\<close> or a string; \<open>None\<close> and the
  empty string are false in the test \<open>if self.config.options\<close>.\<close>

definition get_options :: "string option \<Rightarrow> (string \<rightharpoonup> string) \<times> string list" where
  "get_options opts =
     (case opts of
        None \<Rightarrow> (Map.empty, [])
      | Some s \<Rightarrow>
          if s = [] then (Map.empty, [])
          else foldl parse_field (Map.empty, []) (split_on (\<lambda>c. c = CHR '','') (strip s)))"

section \<open>\<open>VirusTotalAPI.normalize\<close>\<close>

definition VARIANT_BLACKLIST :: "string list" where
  "VARIANT_BLACKLIST =
     [''generic'', ''malware'', ''trojan'', ''agent'', ''win32'', ''multi'', ''w32'',
      ''trojanclicker'', ''trojware'', ''win'', ''a variant of win32'', ''trj'',
      ''susp'', ''dangerousobject'']"

text \<open>The separators of \<open>re.split("[\\.\\-\\(\\)\\[\\]/!:]", variant)\<close>.\<close>

definition is_separator :: "char \<Rightarrow> bool" where
  "is_separator c \<longleftrightarrow> c \<in> set ''.-()[]/!:''"

definition is_hex :: "char \<Rightarrow> bool" where
  "is_hex c \<longleftrightarrow> c \<in> set ''abcdefABCDEF0123456789''"

text \<open>\<open>re.match("[a-fA-F0-9]+$", word)\<close>: a non-empty run of hexadecimal digits from the
  start of the word, after which \<open>$\<close> matches at the end of the word or just before a
  line feed that ends it.\<close>

definition hex_match :: "string \<Rightarrow> bool" where
  "hex_match word \<longleftrightarrow>
     takeWhile is_hex word \<noteq> [] \<and>
     (dropWhile is_hex word = [] \<or> dropWhile is_hex word = [CHR 0x0A])"

text \<open>The body of the loop over the pieces: \<open>None\<close> where the source says \<open>continue\<close>.\<close>

definition normalize_word :: "string \<Rightarrow> string option" where
  "normalize_word w =
     (let word = strip w in
      if length word < 4 then None
      else if lower word \<in> set VARIANT_BLACKLIST then None
      else if hex_match word then None
      else Some word)"

definition normalize :: "string option \<Rightarrow> string list" where
  "normalize variant =
     (case variant of
        None \<Rightarrow> []
      | Some v \<Rightarrow>
          if v = [] then []
          else List.map_filter normalize_word (split_on is_separator v))"


section \<open>Exceptions, plugin callbacks and the recorded trace\<close>

text \<open>
  The classes of the exceptions that the analyzer tells apart. \<open>OtherException\<close> stands
  for every other subclass of \<open>Exception\<close>. \<open>KeyboardInterrupt\<close> and \<open>SystemExit\<close> derive
  from \<open>BaseException\<close> only, so that \<open>except Exception\<close> does not catch them.
  \<open>CuckooError\<close> and \<open>CuckooPackageError\<close> are declared in \<open>lib.common.exceptions\<close> as
  subclasses of \<open>Exception\<close>.
\<close>

datatype exc_class =
    NotImplementedError | AttributeError | ImportError | IndexError | UnboundLocalError
  | CuckooError | CuckooPackageError | OtherException
  | KeyboardInterrupt | SystemExit

text \<open>An exception: its class and \<open>str(e)\<close>.\<close>

datatype exc = Exc (exc_class: exc_class) (exc_str: string)

text \<open>\<open>isinstance(e, Exception)\<close>, the test of \<open>except Exception\<close>.\<close>

definition is_Exception :: "exc \<Rightarrow> bool" where
  "is_Exception e \<longleftrightarrow> exc_class e \<noteq> KeyboardInterrupt \<and> exc_class e \<noteq> SystemExit"

text \<open>The test of \<open>except (NotImplementedError, AttributeError)\<close>.\<close>

definition is_not_implemented :: "exc \<Rightarrow> bool" where
  "is_not_implemented e \<longleftrightarrow> exc_class e = NotImplementedError \<or> exc_class e = AttributeError"

text \<open>A call into code that the analyzer does not control returns or raises.\<close>

datatype 'a outcome = Returns 'a | Raises exc

text \<open>The configuration record that \<open>Config(cfg="analysis.conf")\<close> gives. \<open>package\<close> and
  \<open>options\<close> may be \<open>None\<close>.\<close>

record config =
  category :: string
  target :: string
  file_name :: string
  file_type :: string
  package :: "string option"
  options :: "string option"
  timeout :: int

text \<open>
  The analysis package that the run selects (a subclass of \<open>Package\<close>), given by what
  its callbacks do in this run: the constructor, \<open>start(target)\<close>, the call of \<open>check()\<close> in
  the k-th pass of the polling loop, and \<open>finish()\<close>. The value that \<open>start\<close> returns is
  not used by the analyzer.
\<close>

record driver =
  pack_init :: "unit outcome"
  pack_start :: "unit outcome"
  pack_check :: "nat \<Rightarrow> bool outcome"
  pack_finish :: "unit outcome"

text \<open>An auxiliary module (a subclass of \<open>Auxiliary\<close>): its class name, its constructor,
  \<open>start()\<close> and \<open>stop()\<close>.\<close>

record auxiliary =
  aux_name :: string
  aux_init :: "unit outcome"
  aux_start :: "unit outcome"
  aux_stop :: "unit outcome"

text \<open>
  Everything outside the analyzer that a run depends on: the configuration file, the
  copy of \<open>hooks.json\<close>, \<open>choose_package\<close> (of \<open>lib.core.packages\<close>), the import of the
  package module, \<open>Package.__subclasses__()\<close> after that import, the modules that
  \<open>pkgutil.iter_modules\<close> lists in the auxiliary namespace (name, \<open>ispkg\<close>, outcome of
  the import), \<open>Auxiliary.__subclasses__()\<close>, the number of handlers of the root
  logger, the working directory and \<open>PATHS["root"]\<close>.
\<close>

record world =
  read_config :: "config outcome"
  copy_hooks :: "unit outcome"
  choose_package :: "string \<Rightarrow> string \<Rightarrow> string option"
  import_package :: "string \<Rightarrow> unit outcome"
  package_subclasses :: "driver list"
  auxiliary_modules :: "(string \<times> bool \<times> unit outcome) list"
  auxiliary_subclasses :: "auxiliary list"
  log_handlers :: nat
  cwd :: string
  root :: string

text \<open>
  What a run does to the outside, in order. An auxiliary instance is named by the
  position of its class in \<open>Auxiliary.__subclasses__()\<close>; \<open>PackCheck k\<close> is the call of
  \<open>check()\<close> in the k-th pass of the loop; \<open>Complete\<close> is the call
  \<open>server.complete(success, error, PATHS["root"])\<close> to the agent.
\<close>

datatype event =
    ImportPackage string
  | PackInit | PackStart | PackCheck nat | PackFinish
  | ImportAuxiliary string
  | AuxInit nat | AuxStart nat | AuxStop nat
  | Sleep
  | LogInfo string | LogWarning string | LogCritical string | StderrWrite string
  | Complete bool string string

text \<open>A step of the run gives a value or the exception it raised, and the events it
  made up to there.\<close>

type_synonym 'a step = "(exc + 'a) \<times> event list"

definition emit :: "event list \<Rightarrow> 'a \<times> event list \<Rightarrow> 'a \<times> event list" where
  "emit ev r = (fst r, ev @ snd r)"

text \<open>Sequencing: an exception of the first step ends the sequence.\<close>

definition and_then :: "'a step \<Rightarrow> ('a \<Rightarrow> 'b step) \<Rightarrow> 'b step" where
  "and_then m f = (case fst m of Inl e \<Rightarrow> (Inl e, snd m) | Inr x \<Rightarrow> emit (snd m) (f x))"

definition quoted :: "string \<Rightarrow> string" where
  "quoted s = [CHR 0x22] @ s @ [CHR 0x22]"

section \<open>\<open>Analyzer.prepare\<close> and the selection of the package\<close>

text \<open>\<open>os.path.join\<close> of two components on the guest, a POSIX system.\<close>

definition path_join :: "string \<Rightarrow> string \<Rightarrow> string" where
  "path_join a b =
     (if b \<noteq> [] \<and> hd b = CHR ''/'' then b
      else if a = [] \<or> last a = CHR ''/'' then a @ b
      else a @ ''/'' @ b)"

text \<open>\<open>prepare\<close> gives the configuration and the target.\<close>

definition prepare :: "world \<Rightarrow> (config \<times> string) step" where
  "prepare w =
     (case read_config w of
        Raises e \<Rightarrow> (Inl e, [])
      | Returns cfg \<Rightarrow>
          if category cfg = ''file'' then
            (case copy_hooks w of
               Raises e \<Rightarrow> (Inl e, [])
             | Returns _ \<Rightarrow> (Inr (cfg, path_join ''/data/local/tmp'' (file_name cfg)), []))
          else (Inr (cfg, target cfg), []))"

text \<open>Lines 88 to 109 of \<open>run\<close>: the package named in the configuration, or the one
  detected from the category and the file type.\<close>

definition select_package :: "world \<Rightarrow> config \<Rightarrow> string step" where
  "select_package w cfg =
     (if package cfg = None \<or> package cfg = Some [] then
        (let detected =
               (if category cfg = ''file'' then choose_package w (file_type cfg) (file_name cfg)
                else Some ''default_browser'');
             ev = [LogInfo ''No analysis package specified, trying to detect it automagically'']
         in if detected = None \<or> detected = Some [] then
              (Inl (Exc CuckooError (''No valid package available for file type: '' @ file_type cfg)), ev)
            else
              (Inr (the detected),
               ev @ [LogInfo (''Automatically selected analysis package '' @ quoted (the detected))]))
      else (Inr (the (package cfg)), []))"

text \<open>Line 112: the name of the module of a package.\<close>

definition package_module :: "string \<Rightarrow> string" where
  "package_module package_chosen = ''modules.packages.'' @ package_chosen"

definition import_error_message :: "string \<Rightarrow> string" where
  "import_error_message package_name =
     ''Unable to import package '' @ quoted package_name @ '', does not exist.''"

text \<open>The message of the \<open>ValueError\<close> that the unpacking of a list of n values into
  two names raises in Python 2.\<close>

definition unpack_error :: "nat \<Rightarrow> string" where
  "unpack_error n =
     (if n < 2 then ''need more than 1 value to unpack'' else ''too many values to unpack'')"

definition option_warning :: "string \<Rightarrow> event" where
  "option_warning field =
     LogWarning (''Failed parsing option ('' @ field @ ''): '' @
       unpack_error (length (split_on (\<lambda>c. c = CHR ''='') (strip field))))"

text \<open>Lines 111 to 131: import of the package module, choice of the first subclass
  of \<open>Package\<close>, construction of the package with the parsed options.\<close>

definition load_package :: "world \<Rightarrow> config \<Rightarrow> string \<Rightarrow> driver step" where
  "load_package w cfg package_name =
     (case import_package w package_name of
        Raises e \<Rightarrow>
          if exc_class e = ImportError
          then (Inl (Exc CuckooError (import_error_message package_name)), [ImportPackage package_name])
          else (Inl e, [ImportPackage package_name])
      | Returns _ \<Rightarrow>
          (case package_subclasses w of
             [] \<Rightarrow>
               (Inl (Exc CuckooError (''Unable to select package class (package='' @ package_name @
                       ''): list index out of range'')),
                [ImportPackage package_name])
           | package_class # _ \<Rightarrow>
               (let ev = [ImportPackage package_name] @
                         map option_warning (snd (get_options (options cfg))) @ [PackInit]
                in case pack_init package_class of
                     Raises e \<Rightarrow> (Inl e, ev)
                   | Returns _ \<Rightarrow> (Inr package_class, ev))))"

section \<open>The auxiliary modules\<close>

text \<open>Lines 133 to 145: every module of the auxiliary namespace that is not a package
  is imported; an \<open>ImportError\<close> is logged, any other exception leaves \<open>run\<close>.\<close>

fun import_auxiliaries :: "(string \<times> bool \<times> unit outcome) list \<Rightarrow> unit step" where
  "import_auxiliaries [] = (Inr (), [])"
| "import_auxiliaries ((name, ispkg, imported) # modules) =
     (if ispkg then import_auxiliaries modules
      else case imported of
        Returns _ \<Rightarrow> emit [ImportAuxiliary name] (import_auxiliaries modules)
      | Raises e \<Rightarrow>
          if exc_class e = ImportError then
            emit [ImportAuxiliary name,
                  LogWarning (''Unable to import the auxiliary module '' @ quoted name @ '': '' @ exc_str e)]
              (import_auxiliaries modules)
          else (Inl e, [ImportAuxiliary name]))"

text \<open>Reading the local variable \<open>aux\<close> before any assignment to it.\<close>

definition unbound_aux :: exc where
  "unbound_aux = Exc UnboundLocalError (''local variable '' @ [CHR 0x27] @ ''aux'' @ [CHR 0x27] @
                   '' referenced before assignment'')"

text \<open>
  The \<open>try\<close> block of lines 151 to 153 for one class: the new value of the variable
  \<open>aux\<close>, the exception raised, the events. When the constructor raises, \<open>aux\<close> keeps
  the value it had.
\<close>

definition try_start ::
  "nat \<times> auxiliary \<Rightarrow> (nat \<times> auxiliary) option \<Rightarrow>
     (nat \<times> auxiliary) option \<times> exc option \<times> event list" where
  "try_start module aux =
     (case aux_init (snd module) of
        Raises e \<Rightarrow> (aux, Some e, [AuxInit (fst module)])
      | Returns _ \<Rightarrow>
          (case aux_start (snd module) of
             Raises e \<Rightarrow> (Some module, Some e, [AuxInit (fst module), AuxStart (fst module)])
           | Returns _ \<Rightarrow> (Some module, None, [AuxInit (fst module), AuxStart (fst module)])))"

text \<open>
  The two \<open>except\<close> clauses of lines 154 to 161: the exception still pending after them,
  and the events. Both clauses read \<open>aux.__class__.__name__\<close> for the warning and then
  \<open>continue\<close>.
\<close>

definition handle_start :: "(nat \<times> auxiliary) option \<Rightarrow> exc option \<Rightarrow> exc option \<times> event list" where
  "handle_start aux raised =
     (case raised of
        None \<Rightarrow> (None, [])
      | Some e \<Rightarrow>
          if is_not_implemented e then
            (case aux of
               None \<Rightarrow> (Some unbound_aux, [])
             | Some a \<Rightarrow>
                 (None, [LogWarning (''Auxiliary module '' @ aux_name (snd a) @ '' was not implemented'')]))
          else if is_Exception e then
            (case aux of
               None \<Rightarrow> (Some unbound_aux, [])
             | Some a \<Rightarrow>
                 (None, [LogWarning (''Cannot execute auxiliary module '' @ aux_name (snd a) @ '': '' @
                           exc_str e)]))
          else (Some e, []))"

text \<open>
  The loop of lines 148 to 165 over the classes still to visit, with the variable
  \<open>aux\<close> and the list \<open>aux_enabled\<close>. The \<open>finally\<close> clause runs in every pass, after
  the handlers and before the \<open>continue\<close> or the pending exception takes effect: it
  reads \<open>aux\<close>, logs and appends.
\<close>

fun start_auxiliaries ::
  "(nat \<times> auxiliary) list \<Rightarrow> (nat \<times> auxiliary) option \<Rightarrow> (nat \<times> auxiliary) list \<Rightarrow>
     (nat \<times> auxiliary) list step" where
  "start_auxiliaries [] aux aux_enabled = (Inr aux_enabled, [])"
| "start_auxiliaries (module # modules) aux aux_enabled =
     (case try_start module aux of
        (aux', raised, ev) \<Rightarrow>
          (case handle_start aux' raised of
             (pending, warn) \<Rightarrow>
               (case aux' of
                  None \<Rightarrow> (Inl unbound_aux, ev @ warn)
                | Some a \<Rightarrow>
                    (let started = LogInfo (''Started auxiliary module '' @ aux_name (snd a)) in
                     case pending of
                       Some e \<Rightarrow> (Inl e, ev @ warn @ [started])
                     | None \<Rightarrow>
                         emit (ev @ warn @ [started])
                           (start_auxiliaries modules aux' (aux_enabled @ [a]))))))"

text \<open>Lines 217 to 225: \<open>stop()\<close> on every element of \<open>aux_enabled\<close>.\<close>

fun stop_auxiliaries :: "(nat \<times> auxiliary) list \<Rightarrow> unit step" where
  "stop_auxiliaries [] = (Inr (), [])"
| "stop_auxiliaries (aux # rest) =
     (case aux_stop (snd aux) of
        Returns _ \<Rightarrow> emit [AuxStop (fst aux)] (stop_auxiliaries rest)
      | Raises e \<Rightarrow>
          if is_not_implemented e then emit [AuxStop (fst aux)] (stop_auxiliaries rest)
          else if is_Exception e then
            emit [AuxStop (fst aux),
                  LogWarning (''Cannot terminate auxiliary module '' @ aux_name (snd aux) @ '': '' @
                    exc_str e)]
              (stop_auxiliaries rest)
          else (Inl e, [AuxStop (fst aux)]))"

section \<open>The analysis package: start, polling loop, finish\<close>

text \<open>The messages of the three \<open>except\<close> clauses of lines 171 to 180.\<close>

definition not_implemented_message :: "string \<Rightarrow> string" where
  "not_implemented_message package_name =
     ''The package '' @ quoted package_name @ '' doesn'' @ [CHR 0x27] @ ''t contain a run function.''"

definition package_error_message :: "string \<Rightarrow> string \<Rightarrow> string" where
  "package_error_message package_name e =
     ''The package '' @ quoted package_name @ '' start function raised an error: '' @ e"

definition unhandled_message :: "string \<Rightarrow> string \<Rightarrow> string" where
  "unhandled_message package_name e =
     ''The package '' @ quoted package_name @
     '' start function encountered an unhandled exception: '' @ e"

text \<open>What leaves \<open>run\<close> when \<open>pack.start\<close> raised \<open>e\<close>: the clauses in the order of
  the source.\<close>

definition start_failure :: "string \<Rightarrow> exc \<Rightarrow> exc" where
  "start_failure package_name e =
     (if exc_class e = NotImplementedError then
        Exc CuckooError (not_implemented_message package_name)
      else if exc_class e = CuckooPackageError then
        Exc CuckooError (package_error_message package_name (exc_str e))
      else if is_Exception e then
        Exc CuckooError (unhandled_message package_name (exc_str e))
      else e)"

definition start_package :: "driver \<Rightarrow> string \<Rightarrow> unit step" where
  "start_package pack package_name =
     (case pack_start pack of
        Returns _ \<Rightarrow> (Inr (), [PackStart])
      | Raises e \<Rightarrow> (Inl (start_failure package_name e), [PackStart]))"

text \<open>How the polling loop ends: the counter reached the timeout, \<open>check()\<close> returned
  false, or an exception that \<open>except Exception\<close> does not catch left the loop.\<close>

datatype poll_exit = Timeout | Terminated | Crashed exc

definition timeout_hit :: event where
  "timeout_hit = LogInfo ''Analysis timeout hit, terminating analysis''"

definition termination_requested :: event where
  "termination_requested =
     LogInfo ''The analysis package requested the termination of the analysis...''"

definition check_warning :: "string \<Rightarrow> exc \<Rightarrow> event" where
  "check_warning package_name e =
     LogWarning (''The package '' @ quoted package_name @
       '' check function raised an exception: '' @ exc_str e)"

definition emit_poll ::
  "event list \<Rightarrow> poll_exit \<times> nat \<times> event list \<Rightarrow> poll_exit \<times> nat \<times> event list" where
  "emit_poll ev r = (fst r, fst (snd r), ev @ snd (snd r))"

text \<open>
  The loop of lines 182 to 207, from a value of \<open>time_counter\<close>. The result is the way
  the loop ended, the value of \<open>time_counter\<close> then (the number of passes begun), and
  the events. The loop need not end (a timeout below 1 and a \<open>check()\<close> that never
  returns false), so the result is optional: \<open>None\<close> is a loop that runs forever.
  \<open>time.sleep(1)\<close> is in the \<open>finally\<close> clause: it also runs after the \<open>break\<close> of line
  197 and before an uncaught exception leaves the loop, and not after the \<open>break\<close> of
  line 187, which is outside the \<open>try\<close>.
\<close>

partial_function (option) poll ::
  "int \<Rightarrow> (nat \<Rightarrow> bool outcome) \<Rightarrow> string \<Rightarrow> nat \<Rightarrow> (poll_exit \<times> nat \<times> event list) option" where
  "poll tmo check package_name time_counter =
     (let counter = time_counter + 1 in
      if int counter = tmo then
        Some (Timeout, counter, [timeout_hit])
      else
        (case check counter of
           Returns continue_analysis \<Rightarrow>
             if \<not> continue_analysis then
               Some (Terminated, counter, [PackCheck counter, termination_requested, Sleep])
             else
               Option.bind (poll tmo check package_name counter)
                 (\<lambda>r. Some (emit_poll [PackCheck counter, Sleep] r))
         | Raises e \<Rightarrow>
             if is_Exception e then
               Option.bind (poll tmo check package_name counter)
                 (\<lambda>r. Some (emit_poll [PackCheck counter, check_warning package_name e, Sleep] r))
             else Some (Crashed e, counter, [PackCheck counter, Sleep])))"

definition finish_warning :: "string \<Rightarrow> exc \<Rightarrow> event" where
  "finish_warning package_name e =
     LogWarning (''The package '' @ quoted package_name @
       '' finish function raised an exception: '' @ exc_str e)"

text \<open>Lines 209 to 215.\<close>

definition finish_package :: "driver \<Rightarrow> string \<Rightarrow> unit step" where
  "finish_package pack package_name =
     (case pack_finish pack of
        Returns _ \<Rightarrow> (Inr (), [PackFinish])
      | Raises e \<Rightarrow>
          if is_Exception e then (Inr (), [PackFinish, finish_warning package_name e])
          else (Inl e, [PackFinish]))"

section \<open>\<open>Analyzer.run\<close> and the main program\<close>

text \<open>Lines 82 to 165: everything before \<open>pack.start\<close>. The result is the
  configuration, the target, the name of the package module, the package and
  \<open>aux_enabled\<close>.\<close>

definition before_start ::
  "world \<Rightarrow> (config \<times> string \<times> string \<times> driver \<times> (nat \<times> auxiliary) list) step" where
  "before_start w =
     and_then (prepare w) (\<lambda>(cfg, tgt).
     and_then (Inr (),
               [LogInfo (''Starting analyzer from: '' @ cwd w),
                LogInfo (''Storing results at: '' @ root w),
                LogInfo (''Target is: '' @ tgt)]) (\<lambda>_.
     and_then (select_package w cfg) (\<lambda>package_chosen.
     and_then (load_package w cfg (package_module package_chosen)) (\<lambda>pack.
     and_then (import_auxiliaries (auxiliary_modules w)) (\<lambda>_.
     and_then (start_auxiliaries (enumerate 0 (auxiliary_subclasses w)) None []) (\<lambda>aux_enabled.
       (Inr (cfg, tgt, package_module package_chosen, pack, aux_enabled), [])))))))"

text \<open>Lines 209 to 229: \<open>finish()\<close>, the \<open>stop()\<close> calls, \<open>self.complete()\<close>, which logs,
  and \<open>return True\<close>.\<close>

definition stop_and_complete :: "(nat \<times> auxiliary) list \<Rightarrow> bool step" where
  "stop_and_complete aux_enabled =
     and_then (stop_auxiliaries aux_enabled) (\<lambda>_. (Inr True, [LogInfo ''Analysis completed'']))"

definition shutdown :: "driver \<Rightarrow> string \<Rightarrow> (nat \<times> auxiliary) list \<Rightarrow> bool step" where
  "shutdown pack package_name aux_enabled =
     and_then (finish_package pack package_name) (\<lambda>_. stop_and_complete aux_enabled)"

text \<open>\<open>run\<close>: \<open>None\<close> when the polling loop runs forever.\<close>

definition run :: "world \<Rightarrow> bool step option" where
  "run w =
     (case before_start w of
        (Inl e, ev) \<Rightarrow> Some (Inl e, ev)
      | (Inr (cfg, tgt, package_name, pack, aux_enabled), ev) \<Rightarrow>
          (case start_package pack package_name of
             (Inl e, ev') \<Rightarrow> Some (Inl e, ev @ ev')
           | (Inr _, ev') \<Rightarrow>
               (case poll (timeout cfg) (pack_check pack) package_name 0 of
                  None \<Rightarrow> None
                | Some (Crashed e, n, ev'') \<Rightarrow> Some (Inl e, ev @ ev' @ ev'')
                | Some (_, n, ev'') \<Rightarrow>
                    Some (emit (ev @ ev' @ ev'') (shutdown pack package_name aux_enabled)))))"

text \<open>
  The main program, lines 231 to 261: the events of the whole process, and the
  exception that leaves the process, if any. The \<open>finally\<close> clause makes the call to
  the agent after each of the three ways the \<open>try\<close> statement can end.
\<close>

definition main :: "world \<Rightarrow> (exc option \<times> event list) option" where
  "main w =
     (case run w of
        None \<Rightarrow> None
      | Some (Inr success, ev) \<Rightarrow> Some (None, ev @ [Complete success [] (root w)])
      | Some (Inl e, ev) \<Rightarrow>
          if exc_class e = KeyboardInterrupt then
            Some (None, ev @ [Complete False ''Keyboard Interrupt'' (root w)])
          else if is_Exception e then
            Some (None,
                  ev @ [if 0 < log_handlers w then LogCritical (exc_str e)
                        else StderrWrite (exc_str e @ [CHR 0x0A]),
                        Complete False (exc_str e) (root w)])
          else Some (Some e, ev @ [Complete False [] (root w)]))"

section \<open>Observations on traces\<close>

fun is_PackCheck :: "event \<Rightarrow> bool" where
  "is_PackCheck (PackCheck k) = True"
| "is_PackCheck e = False"

fun is_AuxStop :: "event \<Rightarrow> bool" where
  "is_AuxStop (AuxStop i) = True"
| "is_AuxStop e = False"

fun is_AuxStart :: "event \<Rightarrow> bool" where
  "is_AuxStart (AuxStart i) = True"
| "is_AuxStart e = False"

fun is_LogWarning :: "event \<Rightarrow> bool" where
  "is_LogWarning (LogWarning m) = True"
| "is_LogWarning e = False"

fun is_Complete :: "event \<Rightarrow> bool" where
  "is_Complete (Complete success error path) = True"
| "is_Complete e = False"

text \<open>The events of the shutdown and of the report to the agent.\<close>

fun shutdown_event :: "event \<Rightarrow> bool" where
  "shutdown_event PackFinish = True"
| "shutdown_event (AuxStop i) = True"
| "shutdown_event (Complete success error path) = True"
| "shutdown_event e = False"

text \<open>
  For the comparison that claim C6 makes: the package whose \<open>check()\<close> returns true in
  every pass in which the given one raises an exception that \<open>except Exception\<close>
  catches, and the result of the loop with the warnings left out of the events.
\<close>

definition as_if_true :: "(nat \<Rightarrow> bool outcome) \<Rightarrow> nat \<Rightarrow> bool outcome" where
  "as_if_true check k =
     (case check k of
        Returns b \<Rightarrow> Returns b
      | Raises e \<Rightarrow> if is_Exception e then Returns True else Raises e)"

definition without_warnings ::
  "poll_exit \<times> nat \<times> event list \<Rightarrow> poll_exit \<times> nat \<times> event list" where
  "without_warnings r = (fst r, fst (snd r), filter (\<lambda>e. \<not> is_LogWarning e) (snd (snd r)))"

text \<open>The events of the steps before \<open>pack.start\<close>.\<close>

definition startup_event :: "event \<Rightarrow> bool" where
  "startup_event e \<longleftrightarrow> \<not> shutdown_event e \<and> e \<noteq> PackStart \<and> \<not> is_PackCheck e"

section \<open>An example run\<close>

text \<open>
  A run for a URL with the package \<open>default_browser\<close>, a timeout of 3, a package whose
  callbacks all return, and two auxiliary modules, of which the first raises in
  \<open>stop()\<close>. The theorems below are instantiated at this run and at variants of it.
\<close>

definition example_config :: config where
  "example_config =
     \<lparr>category = ''url'', target = ''http://example.org/'', file_name = [], file_type = [],
      package = Some ''default_browser'', options = Some ''a=1,bad'', timeout = 3\<rparr>"

definition example_driver :: driver where
  "example_driver =
     \<lparr>pack_init = Returns (), pack_start = Returns (), pack_check = (\<lambda>k. Returns True),
      pack_finish = Returns ()\<rparr>"

definition example_auxiliaries :: "auxiliary list" where
  "example_auxiliaries =
     [\<lparr>aux_name = ''Sniffer'', aux_init = Returns (), aux_start = Returns (),
       aux_stop = Raises (Exc OtherException ''boom'')\<rparr>,
      \<lparr>aux_name = ''Screenshots'', aux_init = Returns (), aux_start = Returns (),
       aux_stop = Returns ()\<rparr>]"

definition example_world :: "driver \<Rightarrow> world" where
  "example_world pack =
     \<lparr>read_config = Returns example_config, copy_hooks = Returns (),
      choose_package = (\<lambda>t n. None), import_package = (\<lambda>name. Returns ()),
      package_subclasses = [pack], auxiliary_modules = [],
      auxiliary_subclasses = example_auxiliaries, log_handlers = 1,
      cwd = ''/data/local/tmp'', root = ''/tmp/results''\<rparr>"

text \<open>A \<open>check()\<close> that raises in the first pass and returns true afterwards.\<close>

definition raising_check :: "nat \<Rightarrow> bool outcome" where
  "raising_check k = (if k = 1 then Raises (Exc OtherException ''x'') else Returns True)"

text \<open>An auxiliary module whose \<open>start()\<close> raises.\<close>

definition failing_auxiliary :: auxiliary where
  "failing_auxiliary =
     \<lparr>aux_name = ''Sniffer'', aux_init = Returns (),
      aux_start = Raises (Exc OtherException ''boom''), aux_stop = Returns ()\<rparr>"

text \<open>A \<open>check()\<close> that returns true in every pass.\<close>

definition always_true_check :: "nat \<Rightarrow> bool outcome" where
  "always_true_check k = Returns True"

text \<open>Two auxiliary modules: one whose callbacks all return, and one whose
  constructor raises.\<close>

definition working_auxiliary :: auxiliary where
  "working_auxiliary =
     \<lparr>aux_name = ''Sniffer'', aux_init = Returns (), aux_start = Returns (),
      aux_stop = Returns ()\<rparr>"

definition unbuildable_auxiliary :: auxiliary where
  "unbuildable_auxiliary =
     \<lparr>aux_name = ''Screenshots'', aux_init = Raises (Exc OtherException ''no display''),
      aux_start = Returns (), aux_stop = Returns ()\<rparr>"
section \<open>Properties of the string operations and the two parsers\<close>

lemma split_on_not_Nil: "split_on p s \<noteq> []"
  by (induction s) (auto split: list.splits)

lemma length_split_on: "length (split_on p s) = Suc (length (filter p s))"
  by (induction s) (auto split: list.splits)

lemma split_on_pair:
  "split_on p s = [a, b] \<Longrightarrow> a = takeWhile (\<lambda>c. \<not> p c) s \<and> b = tl (dropWhile (\<lambda>c. \<not> p c) s)"
proof (induction s arbitrary: a)
  case Nil
  then show ?case by simp
next
  case (Cons c cs)
  show ?case
  proof (cases "p c")
    case True
    with Cons.prems have "split_on p cs = [b]" and "a = []" by auto
    moreover have "length (split_on p cs) = Suc (length (filter p cs))" by (rule length_split_on)
    ultimately have "filter p cs = []" by simp
    then have "\<forall>x \<in> set cs. \<not> p x" by (simp add: filter_empty_conv)
    then have "split_on p cs = [cs]" by (induction cs) (auto split: list.splits)
    with \<open>split_on p cs = [b]\<close> \<open>a = []\<close> True show ?thesis by simp
  next
    case False
    with Cons.prems obtain w where w: "split_on p cs = [w, b]" and a: "a = c # w"
      by (auto split: list.splits)
    from Cons.IH[OF w] False a show ?thesis by simp
  qed
qed

lemma strip_trimmed: "strip (strip s) = strip s"
proof -
  define t where "t = dropWhile is_space s"
  define u where "u = dropWhile is_space (rev t)"
  have s: "strip s = rev u" by (simp add: strip_def t_def u_def)
  have u_self: "dropWhile is_space u = u" by (simp add: u_def)
  have "dropWhile is_space (rev u) = rev u"
  proof (cases "u = []")
    case True
    then show ?thesis by simp
  next
    case False
    obtain pre where pre: "rev t = pre @ u"
      by (metis u_def takeWhile_dropWhile_id)
    from False pre have tne: "t \<noteq> []" by auto
    from pre have "t = rev u @ rev pre" by (metis rev_append rev_rev_ident)
    with False have "hd t = hd (rev u)" by simp
    moreover from tne have "\<not> is_space (hd t)" unfolding t_def by (rule hd_dropWhile)
    ultimately have "\<not> is_space (hd (rev u))" by simp
    then show ?thesis by (cases "rev u") auto
  qed
  then have "strip (rev u) = rev u" by (simp add: strip_def u_self)
  then show ?thesis by (simp add: s)
qed

lemma filter_dropWhile_disj:
  "(\<And>x. q x \<Longrightarrow> \<not> p x) \<Longrightarrow> filter p (dropWhile q xs) = filter p xs"
  by (induction xs) auto

lemma filter_strip: "(\<And>x. is_space x \<Longrightarrow> \<not> p x) \<Longrightarrow> length (filter p (strip s)) = length (filter p s)"
proof -
  assume a: "\<And>x. is_space x \<Longrightarrow> \<not> p x"
  have "length (filter p (strip s)) = length (filter p (dropWhile is_space (rev (dropWhile is_space s))))"
    by (simp add: strip_def rev_filter[symmetric])
  also have "\<dots> = length (filter p (rev (dropWhile is_space s)))"
    by (simp add: filter_dropWhile_disj[of is_space p, OF a])
  also have "\<dots> = length (filter p (dropWhile is_space s))"
    by (simp add: rev_filter[symmetric])
  also have "\<dots> = length (filter p s)"
    by (simp add: filter_dropWhile_disj[of is_space p, OF a])
  finally show ?thesis .
qed

lemma unpack_pair_Some: "unpack_pair ps = Some (a, b) \<longleftrightarrow> ps = [a, b]"
  by (auto simp: unpack_pair_def split: list.splits)

lemma unpack_pair_None: "unpack_pair ps = None \<longleftrightarrow> length ps \<noteq> 2"
  by (auto simp: unpack_pair_def split: list.splits)


lemma parse_field_cases:
  "parse_field st f =
     (if length (filter (\<lambda>c. c = CHR ''='') f) = 1
      then ((fst st)(strip (takeWhile (\<lambda>c. c \<noteq> CHR ''='') (strip f)) \<mapsto>
                      strip (tl (dropWhile (\<lambda>c. c \<noteq> CHR ''='') (strip f)))), snd st)
      else (fst st, snd st @ [f]))"
proof -
  let ?p = "\<lambda>c. c = CHR ''=''"
  have "length (filter ?p (strip f)) = length (filter ?p f)"
    by (rule filter_strip) (auto simp: is_space_def)
  then have n: "length (split_on ?p (strip f)) = Suc (length (filter ?p f))"
    by (simp add: length_split_on)
  show ?thesis
  proof (cases "unpack_pair (split_on ?p (strip f))")
    case None
    then have "length (split_on ?p (strip f)) \<noteq> 2" by (simp add: unpack_pair_None)
    with n have "length (filter ?p f) \<noteq> 1" by simp
    with None show ?thesis by (simp add: parse_field_def)
  next
    case (Some kv)
    obtain a b where kv: "kv = (a, b)" by (cases kv)
    with Some have ab: "split_on ?p (strip f) = [a, b]" by (simp add: unpack_pair_Some)
    with n have "length (filter ?p f) = 1" by simp
    moreover from split_on_pair[OF ab]
    have "a = takeWhile (\<lambda>c. c \<noteq> CHR ''='') (strip f)"
      and "b = tl (dropWhile (\<lambda>c. c \<noteq> CHR ''='') (strip f))" by simp_all
    ultimately show ?thesis using Some kv by (simp add: parse_field_def)
  qed
qed

lemma foldl_parse_field_warnings:
  "snd (foldl parse_field st fs) = snd st @ filter (\<lambda>f. length (filter (\<lambda>c. c = CHR ''='') f) \<noteq> 1) fs"
  by (induction fs arbitrary: st) (simp_all add: parse_field_cases)

lemma foldl_parse_field_entries:
  "fst (foldl parse_field st fs) k = Some v \<Longrightarrow>
     fst st k = Some v \<or>
     (\<exists>f \<in> set fs. length (filter (\<lambda>c. c = CHR ''='') f) = 1 \<and>
        k = strip (takeWhile (\<lambda>c. c \<noteq> CHR ''='') (strip f)) \<and>
        v = strip (tl (dropWhile (\<lambda>c. c \<noteq> CHR ''='') (strip f))))"
proof (induction fs arbitrary: st)
  case Nil
  then show ?case by simp
next
  case (Cons f fs)
  from Cons.prems have "fst (foldl parse_field (parse_field st f) fs) k = Some v" by simp
  from Cons.IH[OF this] show ?case
    by (auto simp: parse_field_cases split: if_splits)
qed

lemma foldl_parse_field_dom_mono:
  "k \<in> dom (fst st) \<Longrightarrow> k \<in> dom (fst (foldl parse_field st fs))"
  by (induction fs arbitrary: st) (auto simp: parse_field_cases)

lemma foldl_parse_field_keys:
  "f \<in> set fs \<Longrightarrow> length (filter (\<lambda>c. c = CHR ''='') f) = 1 \<Longrightarrow>
     strip (takeWhile (\<lambda>c. c \<noteq> CHR ''='') (strip f)) \<in> dom (fst (foldl parse_field st fs))"
proof (induction fs arbitrary: st)
  case Nil
  then show ?case by simp
next
  case (Cons g fs)
  show ?case
  proof (cases "f = g")
    case True
    with Cons.prems(2) have "strip (takeWhile (\<lambda>c. c \<noteq> CHR ''='') (strip f)) \<in> dom (fst (parse_field st g))"
      by (simp add: parse_field_cases)
    then show ?thesis using foldl_parse_field_dom_mono by simp
  next
    case False
    with Cons.prems have "f \<in> set fs" by simp
    from Cons.IH[OF this Cons.prems(2)] show ?thesis by simp
  qed
qed

lemma normalize_word_Some:
  "normalize_word x = Some w \<Longrightarrow>
     w = strip x \<and> 4 \<le> length w \<and> lower w \<notin> set VARIANT_BLACKLIST \<and> \<not> hex_match w"
  by (auto simp: normalize_word_def Let_def split: if_splits)

lemma all_hex_match: "w \<noteq> [] \<Longrightarrow> list_all is_hex w \<Longrightarrow> hex_match w"
proof -
  assume "w \<noteq> []" and "list_all is_hex w"
  then have tw: "takeWhile is_hex w = w" and dw: "dropWhile is_hex w = []"
    by (simp_all add: list_all_iff)
  show ?thesis unfolding hex_match_def tw dw using \<open>w \<noteq> []\<close> by simp
qed

lemma blacklist_lower: "b \<in> set VARIANT_BLACKLIST \<Longrightarrow> lower b = b"
  by (auto simp: VARIANT_BLACKLIST_def lower_def lower_char_def)

lemma normalize_elem:
  "w \<in> set (normalize variant) \<Longrightarrow> \<exists>x. normalize_word x = Some w"
  by (auto simp: normalize_def List.map_filter_def split: option.splits if_splits)


text \<open>
  Claim C7. \<open>get_options\<close> maps \<open>a=1, b = 2 ,bad\<close> to the dictionary with \<open>a\<close> bound to
  \<open>1\<close> and \<open>b\<close> bound to \<open>2\<close>, with one warning, for the third token. An absent or empty
  options string gives the empty dictionary and no warning. For every options string:
  the warnings are exactly the tokens that do not hold exactly one \<open>=\<close>; every entry of
  the dictionary comes from a token with exactly one \<open>=\<close>, its key and its value are
  the two sides of that \<open>=\<close> with the whitespace around them removed; and every token
  with exactly one \<open>=\<close> has its key in the dictionary. The function has no failing
  branch: the \<open>ValueError\<close> of the unpacking is the \<open>None\<close> of \<open>unpack_pair\<close>, which
  \<open>parse_field\<close> turns into a warning.
\<close>

theorem get_options_parses:
  "get_options (Some ''a=1, b = 2 ,bad'') = ([''a'' \<mapsto> ''1'', ''b'' \<mapsto> ''2''], [''bad''])
   \<and> get_options None = (Map.empty, [])
   \<and> get_options (Some []) = (Map.empty, [])
   \<and> (s \<noteq> [] \<longrightarrow>
        snd (get_options (Some s)) =
          filter (\<lambda>f. length (filter (\<lambda>c. c = CHR ''='') f) \<noteq> 1)
            (split_on (\<lambda>c. c = CHR '','') (strip s)))
   \<and> (fst (get_options opts) k = Some v \<longrightarrow>
        strip k = k \<and> strip v = v \<and>
        (\<exists>t f. opts = Some t \<and> f \<in> set (split_on (\<lambda>c. c = CHR '','') (strip t)) \<and>
           length (filter (\<lambda>c. c = CHR ''='') f) = 1 \<and>
           k = strip (takeWhile (\<lambda>c. c \<noteq> CHR ''='') (strip f)) \<and>
           v = strip (tl (dropWhile (\<lambda>c. c \<noteq> CHR ''='') (strip f)))))
   \<and> (s \<noteq> [] \<and> f \<in> set (split_on (\<lambda>c. c = CHR '','') (strip s)) \<and>
        length (filter (\<lambda>c. c = CHR ''='') f) = 1 \<longrightarrow>
        strip (takeWhile (\<lambda>c. c \<noteq> CHR ''='') (strip f)) \<in> dom (fst (get_options (Some s))))"
proof -
  have ex: "get_options (Some ''a=1, b = 2 ,bad'') = ([''a'' \<mapsto> ''1'', ''b'' \<mapsto> ''2''], [''bad''])"
    by (simp add: get_options_def parse_field_def unpack_pair_def strip_def is_space_def)
  have none: "get_options None = (Map.empty, [])" "get_options (Some []) = (Map.empty, [])"
    by (simp_all add: get_options_def)
  have warn: "s \<noteq> [] \<longrightarrow>
        snd (get_options (Some s)) =
          filter (\<lambda>f. length (filter (\<lambda>c. c = CHR ''='') f) \<noteq> 1)
            (split_on (\<lambda>c. c = CHR '','') (strip s))"
    by (simp add: get_options_def foldl_parse_field_warnings)
  have entries: "fst (get_options opts) k = Some v \<longrightarrow>
        strip k = k \<and> strip v = v \<and>
        (\<exists>t f. opts = Some t \<and> f \<in> set (split_on (\<lambda>c. c = CHR '','') (strip t)) \<and>
           length (filter (\<lambda>c. c = CHR ''='') f) = 1 \<and>
           k = strip (takeWhile (\<lambda>c. c \<noteq> CHR ''='') (strip f)) \<and>
           v = strip (tl (dropWhile (\<lambda>c. c \<noteq> CHR ''='') (strip f))))"
  proof
    assume a: "fst (get_options opts) k = Some v"
    then obtain t where t: "opts = Some t" "t \<noteq> []"
      by (cases opts) (auto simp: get_options_def split: if_splits)
    with a have "fst (foldl parse_field (Map.empty, []) (split_on (\<lambda>c. c = CHR '','') (strip t))) k = Some v"
      by (simp add: get_options_def)
    from foldl_parse_field_entries[OF this]
    obtain f where f: "f \<in> set (split_on (\<lambda>c. c = CHR '','') (strip t))"
        "length (filter (\<lambda>c. c = CHR ''='') f) = 1"
        "k = strip (takeWhile (\<lambda>c. c \<noteq> CHR ''='') (strip f))"
        "v = strip (tl (dropWhile (\<lambda>c. c \<noteq> CHR ''='') (strip f)))"
      by auto
    from f(3,4) have "strip k = k" "strip v = v" by (simp_all add: strip_trimmed)
    with t f show "strip k = k \<and> strip v = v \<and>
        (\<exists>t f. opts = Some t \<and> f \<in> set (split_on (\<lambda>c. c = CHR '','') (strip t)) \<and>
           length (filter (\<lambda>c. c = CHR ''='') f) = 1 \<and>
           k = strip (takeWhile (\<lambda>c. c \<noteq> CHR ''='') (strip f)) \<and>
           v = strip (tl (dropWhile (\<lambda>c. c \<noteq> CHR ''='') (strip f))))"
      by blast
  qed
  have keys: "s \<noteq> [] \<and> f \<in> set (split_on (\<lambda>c. c = CHR '','') (strip s)) \<and>
        length (filter (\<lambda>c. c = CHR ''='') f) = 1 \<longrightarrow>
        strip (takeWhile (\<lambda>c. c \<noteq> CHR ''='') (strip f)) \<in> dom (fst (get_options (Some s)))"
    using foldl_parse_field_keys[of f "split_on (\<lambda>c. c = CHR '','') (strip s)" "(Map.empty, [])"]
    by (simp add: get_options_def)
  from ex none warn entries keys show ?thesis by blast
qed

theorem get_options_parses_witness:
  "fst (get_options (Some ''k = v ,x'')) ''k'' = Some ''v''
   \<and> snd (get_options (Some ''k = v ,x'')) = [''x'']
   \<and> strip ''k'' = ''k'' \<and> strip ''v'' = ''v''
   \<and> ''k'' \<in> dom (fst (get_options (Some ''k = v ,x'')))"
  using get_options_parses [of "''k = v ,x''" "Some ''k = v ,x''" "''k''" "''v''" "''k = v ''"]
  by (simp add: get_options_def parse_field_def unpack_pair_def strip_def is_space_def)

text \<open>
  Claim C10. Every element of the list that \<open>normalize\<close> returns has at least four
  characters, differs from every word of \<open>VARIANT_BLACKLIST\<close> also when letter case is
  ignored, and does not consist of hexadecimal digits only; for \<open>None\<close> and for the
  empty string the list is empty.
\<close>

theorem normalize_filters:
  "(\<forall>w \<in> set (normalize variant).
      4 \<le> length w \<and> (\<forall>b \<in> set VARIANT_BLACKLIST. lower w \<noteq> lower b) \<and> \<not> list_all is_hex w)
   \<and> normalize None = [] \<and> normalize (Some []) = []"
proof -
  have "4 \<le> length w \<and> (\<forall>b \<in> set VARIANT_BLACKLIST. lower w \<noteq> lower b) \<and> \<not> list_all is_hex w"
    if w: "w \<in> set (normalize variant)" for w
  proof -
    from normalize_elem[OF w] obtain x where "normalize_word x = Some w" ..
    from normalize_word_Some[OF this]
    have len: "4 \<le> length w" and bl: "lower w \<notin> set VARIANT_BLACKLIST" and hx: "\<not> hex_match w"
      by blast+
    from len have ne: "w \<noteq> []" by auto
    from bl have "\<forall>b \<in> set VARIANT_BLACKLIST. lower w \<noteq> lower b"
      by (auto simp: blacklist_lower)
    moreover from hx ne have "\<not> list_all is_hex w" using all_hex_match by blast
    ultimately show ?thesis using len by simp
  qed
  moreover have "normalize None = []" "normalize (Some []) = []"
    by (simp_all add: normalize_def)
  ultimately show ?thesis by blast
qed

theorem normalize_filters_witness:
  "''Zbot'' \<in> set (normalize (Some ''W32.Zbot''))
   \<and> 4 \<le> length ''Zbot'' \<and> lower ''Zbot'' \<noteq> lower ''trojan'' \<and> \<not> list_all is_hex ''Zbot''"
  using normalize_filters [of "Some ''W32.Zbot''"]
  by (simp add: normalize_def normalize_word_def List.map_filter_def is_separator_def strip_def
      is_space_def lower_def lower_char_def VARIANT_BLACKLIST_def hex_match_def is_hex_def)

section \<open>The polling loop\<close>


lemma bind_Some_map: "Option.bind x (\<lambda>r. Some (f r)) = map_option f x"
  by (cases x) simp_all

lemma poll_timeout:
  "int (Suc c) = tmo \<Longrightarrow> poll tmo check nm c = Some (Timeout, Suc c, [timeout_hit])"
  by (subst poll.simps) (simp add: Let_def)

lemma poll_true:
  "int (Suc c) \<noteq> tmo \<Longrightarrow> check (Suc c) = Returns True \<Longrightarrow>
     poll tmo check nm c = map_option (emit_poll [PackCheck (Suc c), Sleep]) (poll tmo check nm (Suc c))"
  by (subst poll.simps) (simp add: Let_def bind_Some_map)

lemma poll_false:
  "int (Suc c) \<noteq> tmo \<Longrightarrow> check (Suc c) = Returns False \<Longrightarrow>
     poll tmo check nm c = Some (Terminated, Suc c, [PackCheck (Suc c), termination_requested, Sleep])"
  by (subst poll.simps) (simp add: Let_def)

lemma poll_contained:
  "int (Suc c) \<noteq> tmo \<Longrightarrow> check (Suc c) = Raises e \<Longrightarrow> is_Exception e \<Longrightarrow>
     poll tmo check nm c =
       map_option (emit_poll [PackCheck (Suc c), check_warning nm e, Sleep]) (poll tmo check nm (Suc c))"
  by (subst poll.simps) (simp add: Let_def bind_Some_map)

lemma poll_crashed:
  "int (Suc c) \<noteq> tmo \<Longrightarrow> check (Suc c) = Raises e \<Longrightarrow> \<not> is_Exception e \<Longrightarrow>
     poll tmo check nm c = Some (Crashed e, Suc c, [PackCheck (Suc c), Sleep])"
  by (subst poll.simps) (simp add: Let_def)

lemma poll_terminates: "int c < tmo \<Longrightarrow> \<exists>r. poll tmo check nm c = Some r"
proof (induction n \<equiv> "nat tmo - Suc c" arbitrary: c)
  case 0
  then have "int (Suc c) = tmo" by linarith
  then show ?case by (simp add: poll_timeout)
next
  case (Suc n)
  then have ne: "int (Suc c) \<noteq> tmo" and lt: "int (Suc c) < tmo" and n: "n = nat tmo - Suc (Suc c)"
    by linarith+
  from Suc.hyps(1)[OF n lt] obtain r where r: "poll tmo check nm (Suc c) = Some r" ..
  show ?case
  proof (cases "check (Suc c)")
    case (Returns b)
    then show ?thesis using ne r poll_true[of c tmo check nm] poll_false[of c tmo check nm]
      by (cases b) (auto simp: emit_poll_def)
  next
    case (Raises e)
    then show ?thesis using ne r poll_contained[of c tmo check e nm] poll_crashed[of c tmo check e nm]
      by (cases "is_Exception e") (auto simp: emit_poll_def)
  qed
qed

lemma poll_all_true:
  "int c < tmo \<Longrightarrow> (\<forall>k. c < k \<and> int k < tmo \<longrightarrow> check k = Returns True) \<Longrightarrow>
     poll tmo check nm c =
       Some (Timeout, nat tmo, concat (map (\<lambda>k. [PackCheck k, Sleep]) [Suc c..<nat tmo]) @ [timeout_hit])"
proof (induction n \<equiv> "nat tmo - Suc c" arbitrary: c)
  case 0
  then have eq: "int (Suc c) = tmo" by linarith
  then have "nat tmo = Suc c" by linarith
  with poll_timeout[OF eq] show ?case by simp
next
  case (Suc n)
  then have ne: "int (Suc c) \<noteq> tmo" and lt: "int (Suc c) < tmo" and n: "n = nat tmo - Suc (Suc c)"
    by linarith+
  from Suc.prems(2) have all: "\<forall>k. Suc c < k \<and> int k < tmo \<longrightarrow> check k = Returns True" by simp
  from Suc.prems(2) lt have here: "check (Suc c) = Returns True" by blast
  from lt have "Suc c < nat tmo" by linarith
  then have upt: "[Suc c..<nat tmo] = Suc c # [Suc (Suc c)..<nat tmo]" by (rule upt_conv_Cons)
  show ?case
    unfolding poll_true[of c tmo check nm, OF ne here] Suc.hyps(1)[OF n lt all] upt by (simp add: emit_poll_def)
qed

lemma poll_false_at:
  "c < k \<Longrightarrow> int k < tmo \<Longrightarrow> (\<forall>j. c < j \<and> j < k \<longrightarrow> check j = Returns True) \<Longrightarrow>
   check k = Returns False \<Longrightarrow>
     poll tmo check nm c =
       Some (Terminated, k,
             concat (map (\<lambda>j. [PackCheck j, Sleep]) [Suc c..<k]) @
             [PackCheck k, termination_requested, Sleep])"
proof (induction n \<equiv> "k - Suc c" arbitrary: c)
  case 0
  then have k: "k = Suc c" by linarith
  with 0 have ne: "int (Suc c) \<noteq> tmo" by linarith
  from 0(5) k have "check (Suc c) = Returns False" by simp
  from poll_false[of c tmo check nm, OF ne this] show ?case by (simp add: k)
next
  case (Suc n)
  then have lt: "Suc c < k" and n: "n = k - Suc (Suc c)" by linarith+
  with Suc.prems have ne: "int (Suc c) \<noteq> tmo" by linarith
  from Suc.prems(3) lt have here: "check (Suc c) = Returns True" by blast
  from Suc.prems(3) have all: "\<forall>j. Suc c < j \<and> j < k \<longrightarrow> check j = Returns True" by simp
  from lt have upt: "[Suc c..<k] = Suc c # [Suc (Suc c)..<k]" by (rule upt_conv_Cons)
  show ?case
    unfolding poll_true[of c tmo check nm, OF ne here] Suc.hyps(1)[OF n lt Suc.prems(2) all Suc.prems(4)] upt
    by (simp add: emit_poll_def)
qed

lemma filter_checks:
  "filter is_PackCheck (concat (map (\<lambda>k. [PackCheck k, Sleep]) ks)) = map PackCheck ks"
  by (induction ks) simp_all


lemma without_warnings_emit:
  "without_warnings (emit_poll ev r) = emit_poll (filter (\<lambda>e. \<not> is_LogWarning e) ev) (without_warnings r)"
  by (simp add: without_warnings_def emit_poll_def)

lemma poll_as_if_true_forward:
  assumes "poll tmo check nm c = Some y"
  shows "poll tmo (as_if_true check) nm c = Some (without_warnings y)"
  using assms
proof (induction tmo check nm c y rule: poll.raw_induct[rotated 1, consumes 1, case_names step])
  case (step pollf tmo check nm c y)
  show ?case
  proof (cases "int (Suc c) = tmo")
    case True
    with step.hyps have "y = (Timeout, Suc c, [timeout_hit])" by (simp add: Let_def)
    with True show ?thesis
      by (simp add: poll_timeout without_warnings_def timeout_hit_def)
  next
    case ne: False
    show ?thesis
    proof (cases "check (Suc c)")
      case (Returns b)
      then have c': "as_if_true check (Suc c) = Returns b" by (simp add: as_if_true_def)
      show ?thesis
      proof (cases b)
        case True
        with step.hyps ne Returns obtain r where r: "pollf tmo check nm (Suc c) = Some r"
          and y: "y = emit_poll [PackCheck (Suc c), Sleep] r"
          by (auto simp: Let_def bind_eq_Some_conv)
        from step.IH[OF r] c' True ne show ?thesis
          by (simp add: poll_true[of c tmo "as_if_true check" nm] y without_warnings_emit)
      next
        case False
        with step.hyps ne Returns
        have "y = (Terminated, Suc c, [PackCheck (Suc c), termination_requested, Sleep])"
          by (simp add: Let_def)
        with c' False ne show ?thesis
          by (simp add: poll_false[of c tmo "as_if_true check" nm] without_warnings_def
              termination_requested_def)
      qed
    next
      case (Raises e)
      show ?thesis
      proof (cases "is_Exception e")
        case True
        with Raises have c': "as_if_true check (Suc c) = Returns True" by (simp add: as_if_true_def)
        from step.hyps ne Raises True obtain r where r: "pollf tmo check nm (Suc c) = Some r"
          and y: "y = emit_poll [PackCheck (Suc c), check_warning nm e, Sleep] r"
          by (auto simp: Let_def bind_eq_Some_conv)
        from step.IH[OF r] c' ne show ?thesis
          by (simp add: poll_true[of c tmo "as_if_true check" nm] y without_warnings_emit
              check_warning_def)
      next
        case False
        with Raises have c': "as_if_true check (Suc c) = Raises e" by (simp add: as_if_true_def)
        from step.hyps ne Raises False have "y = (Crashed e, Suc c, [PackCheck (Suc c), Sleep])"
          by (simp add: Let_def)
        with c' False ne show ?thesis
          by (simp add: poll_crashed[of c tmo "as_if_true check" e nm] without_warnings_def)
      qed
    qed
  qed
qed

lemma poll_as_if_true_backward:
  assumes "poll tmo check' nm c = Some y'" and "check' = as_if_true check"
  shows "\<exists>y. poll tmo check nm c = Some y \<and> without_warnings y = y'"
  using assms
proof (induction tmo check' nm c y' rule: poll.raw_induct[rotated 1, consumes 1, case_names step])
  case (step pollf tmo check' nm c y')
  note eq = \<open>check' = as_if_true check\<close>
  show ?case
  proof (cases "int (Suc c) = tmo")
    case True
    with step.hyps have "y' = (Timeout, Suc c, [timeout_hit])" by (simp add: Let_def)
    with True show ?thesis
      by (simp add: poll_timeout without_warnings_def timeout_hit_def)
  next
    case ne: False
    show ?thesis
    proof (cases "check (Suc c)")
      case (Returns b)
      then have c': "check' (Suc c) = Returns b" by (simp add: eq as_if_true_def)
      show ?thesis
      proof (cases b)
        case True
        with step.hyps ne c' obtain r' where r': "pollf tmo check' nm (Suc c) = Some r'"
          and y': "y' = emit_poll [PackCheck (Suc c), Sleep] r'"
          by (auto simp: Let_def bind_eq_Some_conv)
        from step.IH[OF r' eq] obtain r where r: "poll tmo check nm (Suc c) = Some r"
          and w: "without_warnings r = r'" by blast
        from Returns True ne r w show ?thesis
          by (simp add: poll_true[of c tmo check nm] y' without_warnings_emit)
      next
        case False
        with step.hyps ne c'
        have "y' = (Terminated, Suc c, [PackCheck (Suc c), termination_requested, Sleep])"
          by (simp add: Let_def)
        with Returns False ne show ?thesis
          by (simp add: poll_false[of c tmo check nm] without_warnings_def
              termination_requested_def)
      qed
    next
      case (Raises e)
      show ?thesis
      proof (cases "is_Exception e")
        case True
        with Raises have c': "check' (Suc c) = Returns True" by (simp add: eq as_if_true_def)
        with step.hyps ne obtain r' where r': "pollf tmo check' nm (Suc c) = Some r'"
          and y': "y' = emit_poll [PackCheck (Suc c), Sleep] r'"
          by (auto simp: Let_def bind_eq_Some_conv)
        from step.IH[OF r' eq] obtain r where r: "poll tmo check nm (Suc c) = Some r"
          and w: "without_warnings r = r'" by blast
        from Raises True ne r w show ?thesis
          by (simp add: poll_contained[of c tmo check e nm] y' without_warnings_emit
              check_warning_def)
      next
        case False
        with Raises have c': "check' (Suc c) = Raises e" by (simp add: eq as_if_true_def)
        with step.hyps ne False have "y' = (Crashed e, Suc c, [PackCheck (Suc c), Sleep])"
          by (simp add: Let_def)
        with Raises False ne show ?thesis
          by (simp add: poll_crashed[of c tmo check e nm] without_warnings_def)
      qed
    qed
  qed
qed

lemma poll_as_if_true:
  "map_option without_warnings (poll tmo check nm c) = poll tmo (as_if_true check) nm c"
proof (cases "poll tmo check nm c")
  case None
  have "poll tmo (as_if_true check) nm c = None"
  proof (rule ccontr)
    assume "poll tmo (as_if_true check) nm c \<noteq> None"
    then obtain y' where "poll tmo (as_if_true check) nm c = Some y'" by auto
    from poll_as_if_true_backward[OF this refl] None show False by auto
  qed
  with None show ?thesis by simp
next
  case (Some y)
  from poll_as_if_true_forward[OF Some] Some show ?thesis by simp
qed


lemma poll_passes:
  assumes "poll tmo check nm c = Some y"
  shows "c < fst (snd y) \<and>
         (\<forall>k e. c < k \<and> k \<le> fst (snd y) \<and> check k = Raises e \<and> is_Exception e \<longrightarrow>
            (k = fst (snd y) \<longrightarrow> fst y = Timeout) \<and>
            (k < fst (snd y) \<longrightarrow> check_warning nm e \<in> set (snd (snd y))))"
  using assms
proof (induction tmo check nm c y rule: poll.raw_induct[rotated 1, consumes 1, case_names step])
  case (step pollf tmo check nm c y)
  show ?case
  proof (cases "int (Suc c) = tmo")
    case True
    with step.hyps have "y = (Timeout, Suc c, [timeout_hit])" by (simp add: Let_def)
    then show ?thesis by auto
  next
    case ne: False
    show ?thesis
    proof (cases "check (Suc c)")
      case (Returns b)
      show ?thesis
      proof (cases b)
        case True
        with step.hyps ne Returns obtain r where r: "pollf tmo check nm (Suc c) = Some r"
          and y: "y = emit_poll [PackCheck (Suc c), Sleep] r"
          by (auto simp: Let_def bind_eq_Some_conv)
        from step.IH[OF r] have lt: "Suc c < fst (snd r)"
          and ih: "\<And>k e. Suc c < k \<Longrightarrow> k \<le> fst (snd r) \<Longrightarrow> check k = Raises e \<Longrightarrow> is_Exception e \<Longrightarrow>
            (k = fst (snd r) \<longrightarrow> fst r = Timeout) \<and>
            (k < fst (snd r) \<longrightarrow> check_warning nm e \<in> set (snd (snd r)))"
          by blast+
        have "(k = fst (snd y) \<longrightarrow> fst y = Timeout) \<and>
            (k < fst (snd y) \<longrightarrow> check_warning nm e \<in> set (snd (snd y)))"
          if k: "c < k" "k \<le> fst (snd y)" "check k = Raises e" "is_Exception e" for k e
        proof (cases "k = Suc c")
          case True
          with k(3) Returns show ?thesis by simp
        next
          case False
          with k(1) have "Suc c < k" by simp
          from ih[OF this _ k(3,4)] k(2) show ?thesis by (simp add: y emit_poll_def)
        qed
        moreover from lt have "c < fst (snd y)" by (simp add: y emit_poll_def)
        ultimately show ?thesis by blast
      next
        case False
        with step.hyps ne Returns
        have "y = (Terminated, Suc c, [PackCheck (Suc c), termination_requested, Sleep])"
          by (simp add: Let_def)
        with Returns show ?thesis by (auto simp: le_Suc_eq)
      qed
    next
      case (Raises x)
      show ?thesis
      proof (cases "is_Exception x")
        case True
        with step.hyps ne Raises obtain r where r: "pollf tmo check nm (Suc c) = Some r"
          and y: "y = emit_poll [PackCheck (Suc c), check_warning nm x, Sleep] r"
          by (auto simp: Let_def bind_eq_Some_conv)
        from step.IH[OF r] have lt: "Suc c < fst (snd r)"
          and ih: "\<And>k e. Suc c < k \<Longrightarrow> k \<le> fst (snd r) \<Longrightarrow> check k = Raises e \<Longrightarrow> is_Exception e \<Longrightarrow>
            (k = fst (snd r) \<longrightarrow> fst r = Timeout) \<and>
            (k < fst (snd r) \<longrightarrow> check_warning nm e \<in> set (snd (snd r)))"
          by blast+
        have "(k = fst (snd y) \<longrightarrow> fst y = Timeout) \<and>
            (k < fst (snd y) \<longrightarrow> check_warning nm e \<in> set (snd (snd y)))"
          if k: "c < k" "k \<le> fst (snd y)" "check k = Raises e" "is_Exception e" for k e
        proof (cases "k = Suc c")
          case True
          with k(3) Raises lt show ?thesis by (simp add: y emit_poll_def)
        next
          case False
          with k(1) have "Suc c < k" by simp
          from ih[OF this _ k(3,4)] k(2) show ?thesis by (simp add: y emit_poll_def)
        qed
        moreover from lt have "c < fst (snd y)" by (simp add: y emit_poll_def)
        ultimately show ?thesis by blast
      next
        case False
        with step.hyps ne Raises have "y = (Crashed x, Suc c, [PackCheck (Suc c), Sleep])"
          by (simp add: Let_def)
        with Raises False show ?thesis by (auto simp: le_Suc_eq)
      qed
    qed
  qed
qed

lemma poll_events:
  assumes "poll tmo check nm c = Some y"
  shows "\<forall>e \<in> set (snd (snd y)). \<not> shutdown_event e \<and> e \<noteq> PackStart \<and> \<not> is_AuxStart e"
  using assms
proof (induction tmo check nm c y rule: poll.raw_induct[rotated 1, consumes 1, case_names step])
  case (step pollf tmo check nm c y)
  have rec: "\<forall>e \<in> set (snd (snd (emit_poll ev r))). \<not> shutdown_event e \<and> e \<noteq> PackStart \<and> \<not> is_AuxStart e"
    if "pollf tmo check nm (Suc c) = Some r"
      and "\<forall>e \<in> set ev. \<not> shutdown_event e \<and> e \<noteq> PackStart \<and> \<not> is_AuxStart e" for r ev
    using step.IH[OF that(1)] that(2) by (auto simp: emit_poll_def)
  from step.hyps show ?case
    by (auto simp: Let_def bind_eq_Some_conv timeout_hit_def termination_requested_def
        check_warning_def emit_poll_def dest!: step.IH
        split: if_splits outcome.splits)
qed


section \<open>The steps of a run and their events\<close>

lemma fst_emit: "fst (emit ev r) = fst r"
  by (simp add: emit_def)

lemma snd_emit: "snd (emit ev r) = ev @ snd r"
  by (simp add: emit_def)

lemma and_then_Inl: "fst m = Inl e \<Longrightarrow> and_then m f = (Inl e, snd m)"
  by (simp add: and_then_def)

lemma and_then_Inr: "fst m = Inr x \<Longrightarrow> and_then m f = (fst (f x), snd m @ snd (f x))"
  by (simp add: and_then_def emit_def)

lemma and_then_events:
  "e \<in> set (snd (and_then m f)) \<Longrightarrow> e \<in> set (snd m) \<or> (\<exists>x. fst m = Inr x \<and> e \<in> set (snd (f x)))"
  by (cases "fst m") (auto simp: and_then_def emit_def)

lemma and_then_result_Inr:
  "and_then m f = (Inr y, ev) \<Longrightarrow> \<exists>x. fst m = Inr x \<and> fst (f x) = Inr y \<and> ev = snd m @ snd (f x)"
  by (cases "fst m") (auto simp: and_then_def emit_def)


lemma prepare_events: "snd (prepare w) = []"
  by (simp add: prepare_def split: outcome.splits)

lemma select_package_events: "e \<in> set (snd (select_package w cfg)) \<Longrightarrow> \<exists>m. e = LogInfo m"
  by (auto simp: select_package_def Let_def split: if_splits)

lemma load_package_events:
  "e \<in> set (snd (load_package w cfg nm)) \<Longrightarrow> startup_event e \<and> \<not> is_AuxStart e"
  by (auto simp: load_package_def Let_def option_warning_def startup_event_def
      split: outcome.splits list.splits if_splits)

lemma import_auxiliaries_events:
  "e \<in> set (snd (import_auxiliaries ms)) \<Longrightarrow> startup_event e \<and> \<not> is_AuxStart e"
  by (induction ms rule: import_auxiliaries.induct)
     (auto simp: snd_emit startup_event_def split: outcome.splits if_splits)

lemma try_start_events:
  "try_start m aux = (aux', raised, ev) \<Longrightarrow> e \<in> set ev \<Longrightarrow> startup_event e"
  by (auto simp: try_start_def startup_event_def split: outcome.splits)

lemma handle_start_events:
  "handle_start aux raised = (pending, warn) \<Longrightarrow> e \<in> set warn \<Longrightarrow> startup_event e"
  by (auto simp: handle_start_def startup_event_def split: option.splits if_splits)

lemma start_auxiliaries_events:
  "e \<in> set (snd (start_auxiliaries ms aux enabled)) \<Longrightarrow> startup_event e"
proof (induction ms arbitrary: aux enabled)
  case Nil
  then show ?case by simp
next
  case (Cons m ms)
  obtain aux' raised ev where t: "try_start m aux = (aux', raised, ev)" by (cases "try_start m aux")
  obtain pending warn where h: "handle_start aux' raised = (pending, warn)"
    by (cases "handle_start aux' raised")
  have ev: "\<And>x. x \<in> set ev \<Longrightarrow> startup_event x" using try_start_events[OF t] .
  have warn: "\<And>x. x \<in> set warn \<Longrightarrow> startup_event x" using handle_start_events[OF h] .
  have log: "startup_event (LogInfo s)" for s by (simp add: startup_event_def)
  from Cons.prems show ?case
    using ev warn log Cons.IH
    by (auto simp: t h Let_def snd_emit split: option.splits)
qed


lemma and_then_all:
  "e \<in> set (snd (and_then m f)) \<Longrightarrow> (\<And>e. e \<in> set (snd m) \<Longrightarrow> P e) \<Longrightarrow>
     (\<And>x e. fst m = Inr x \<Longrightarrow> e \<in> set (snd (f x)) \<Longrightarrow> P e) \<Longrightarrow> P e"
  using and_then_events by blast

lemma and_then_fst_Inr:
  "fst (and_then m f) = Inr y \<Longrightarrow> \<exists>x. fst m = Inr x \<and> fst (f x) = Inr y"
  by (cases "fst m") (auto simp: and_then_def emit_def)

lemma before_start_events: "e \<in> set (snd (before_start w)) \<Longrightarrow> startup_event e"
  unfolding before_start_def case_prod_beta
  apply (erule and_then_all)
   apply (simp add: prepare_events)
  apply (erule and_then_all)
   apply (auto simp: startup_event_def)[1]
  apply (erule and_then_all)
   apply (auto simp: startup_event_def dest!: select_package_events)[1]
  apply (erule and_then_all)
   apply (simp add: load_package_events)
  apply (erule and_then_all)
   apply (simp add: import_auxiliaries_events)
  apply (erule and_then_all)
   apply (simp add: start_auxiliaries_events)
  apply simp
  done

lemma prepare_config: "fst (prepare w) = Inr (cfg, tgt) \<Longrightarrow> read_config w = Returns cfg"
  by (auto simp: prepare_def split: outcome.splits if_splits)

lemma before_start_Inr:
  assumes "fst (before_start w) = Inr (cfg, tgt, nm, pack, enabled)"
  shows "fst (prepare w) = Inr (cfg, tgt) \<and>
         (\<exists>p. fst (select_package w cfg) = Inr p \<and> nm = package_module p \<and>
              fst (load_package w cfg nm) = Inr pack) \<and>
         fst (start_auxiliaries (enumerate 0 (auxiliary_subclasses w)) None []) = Inr enabled"
  using assms unfolding before_start_def case_prod_beta
  by (auto dest!: and_then_fst_Inr)

lemma before_start_config:
  "fst (before_start w) = Inr (cfg, tgt, nm, pack, enabled) \<Longrightarrow> read_config w = Returns cfg"
  using before_start_Inr prepare_config by blast

lemma stop_auxiliaries_contained:
  "(\<forall>a \<in> set xs. \<forall>e. aux_stop (snd a) = Raises e \<longrightarrow> is_Exception e) \<Longrightarrow>
     fst (stop_auxiliaries xs) = Inr () \<and>
     filter is_AuxStop (snd (stop_auxiliaries xs)) = map (\<lambda>a. AuxStop (fst a)) xs"
  by (induction xs) (auto simp: fst_emit snd_emit split: outcome.splits)

lemma stop_auxiliaries_events:
  "e \<in> set (snd (stop_auxiliaries xs)) \<Longrightarrow> (\<exists>i. e = AuxStop i) \<or> (\<exists>m. e = LogWarning m)"
  by (induction xs) (auto simp: snd_emit split: outcome.splits if_splits)

lemma stop_and_complete_events:
  "e \<in> set (snd (stop_and_complete xs)) \<Longrightarrow> e \<noteq> PackFinish \<and> \<not> is_Complete e \<and> e \<noteq> PackStart"
  unfolding stop_and_complete_def
  by (erule and_then_all) (auto dest!: stop_auxiliaries_events)

lemma stop_and_complete_contained:
  "(\<forall>a \<in> set xs. \<forall>e. aux_stop (snd a) = Raises e \<longrightarrow> is_Exception e) \<Longrightarrow>
     fst (stop_and_complete xs) = Inr True \<and>
     filter is_AuxStop (snd (stop_and_complete xs)) = map (\<lambda>a. AuxStop (fst a)) xs"
  using stop_auxiliaries_contained[of xs]
  by (simp add: stop_and_complete_def and_then_Inr[of _ "()"])

lemma shutdown_returns:
  "pack_finish pack = Returns u \<Longrightarrow>
     shutdown pack nm xs = (fst (stop_and_complete xs), PackFinish # snd (stop_and_complete xs))"
  by (simp add: shutdown_def finish_package_def and_then_def emit_def)

lemma shutdown_contained:
  "pack_finish pack = Raises e \<Longrightarrow> is_Exception e \<Longrightarrow>
     shutdown pack nm xs =
       (fst (stop_and_complete xs), PackFinish # finish_warning nm e # snd (stop_and_complete xs))"
  by (simp add: shutdown_def finish_package_def and_then_def emit_def)

lemma shutdown_crashed:
  "pack_finish pack = Raises e \<Longrightarrow> \<not> is_Exception e \<Longrightarrow> shutdown pack nm xs = (Inl e, [PackFinish])"
  by (simp add: shutdown_def finish_package_def and_then_def)

lemma shutdown_shape:
  "\<exists>post. snd (shutdown pack nm xs) = PackFinish # post \<and> PackFinish \<notin> set post \<and>
          (\<forall>e \<in> set post. \<not> is_Complete e)"
proof (cases "pack_finish pack")
  case (Returns u)
  then show ?thesis using stop_and_complete_events[of _ xs]
    by (auto simp: shutdown_returns)
next
  case (Raises e)
  then show ?thesis using stop_and_complete_events[of _ xs]
    by (cases "is_Exception e")
       (auto simp: shutdown_contained shutdown_crashed finish_warning_def)
qed

lemma run_aborted: "before_start w = (Inl e, ev) \<Longrightarrow> run w = Some (Inl e, ev)"
  by (simp add: run_def)

lemma run_start_failed:
  "before_start w = (Inr (cfg, tgt, nm, pack, enabled), ev) \<Longrightarrow> pack_start pack = Raises e \<Longrightarrow>
     run w = Some (Inl (start_failure nm e), ev @ [PackStart])"
  by (simp add: run_def start_package_def)

lemma run_crashed:
  "before_start w = (Inr (cfg, tgt, nm, pack, enabled), ev) \<Longrightarrow> pack_start pack = Returns u \<Longrightarrow>
   poll (timeout cfg) (pack_check pack) nm 0 = Some (Crashed e, n, pev) \<Longrightarrow>
     run w = Some (Inl e, ev @ PackStart # pev)"
  by (simp add: run_def start_package_def)

lemma run_shutdown:
  "before_start w = (Inr (cfg, tgt, nm, pack, enabled), ev) \<Longrightarrow> pack_start pack = Returns u \<Longrightarrow>
   poll (timeout cfg) (pack_check pack) nm 0 = Some (ex, n, pev) \<Longrightarrow> ex = Timeout \<or> ex = Terminated \<Longrightarrow>
     run w = Some (fst (shutdown pack nm enabled), ev @ PackStart # pev @ snd (shutdown pack nm enabled))"
  by (auto simp: run_def start_package_def emit_def)

lemma run_forever:
  "before_start w = (Inr (cfg, tgt, nm, pack, enabled), ev) \<Longrightarrow> pack_start pack = Returns u \<Longrightarrow>
   poll (timeout cfg) (pack_check pack) nm 0 = None \<Longrightarrow> run w = None"
  by (simp add: run_def start_package_def)


lemma is_Complete_shutdown: "is_Complete e \<Longrightarrow> shutdown_event e"
  by (cases e) simp_all

lemma startup_not_Complete: "startup_event e \<Longrightarrow> \<not> is_Complete e"
  using is_Complete_shutdown by (auto simp: startup_event_def)

lemma poll_exit_cases: "ex = Timeout \<or> ex = Terminated \<or> (\<exists>e. ex = Crashed e)"
  by (cases ex) simp_all

lemma run_cases:
  obtains (aborted) e ev where "before_start w = (Inl e, ev)" "run w = Some (Inl e, ev)"
  | (start_failed) cfg tgt nm pack enabled ev e where
      "before_start w = (Inr (cfg, tgt, nm, pack, enabled), ev)" "pack_start pack = Raises e"
      "run w = Some (Inl (start_failure nm e), ev @ [PackStart])"
  | (forever) cfg tgt nm pack enabled ev where
      "before_start w = (Inr (cfg, tgt, nm, pack, enabled), ev)"
      "poll (timeout cfg) (pack_check pack) nm 0 = None" "run w = None"
  | (crashed) cfg tgt nm pack enabled ev e n pev where
      "before_start w = (Inr (cfg, tgt, nm, pack, enabled), ev)"
      "poll (timeout cfg) (pack_check pack) nm 0 = Some (Crashed e, n, pev)"
      "run w = Some (Inl e, ev @ PackStart # pev)"
  | (shutdown) cfg tgt nm pack enabled ev ex n pev where
      "before_start w = (Inr (cfg, tgt, nm, pack, enabled), ev)"
      "poll (timeout cfg) (pack_check pack) nm 0 = Some (ex, n, pev)"
      "run w = Some (fst (shutdown pack nm enabled), ev @ PackStart # pev @ snd (shutdown pack nm enabled))"
proof -
  obtain r ev where b: "before_start w = (r, ev)" by (cases "before_start w")
  show thesis
  proof (cases r)
    case (Inl e)
    with b run_aborted[of w e ev] aborted show ?thesis by simp
  next
    case (Inr ctx)
    obtain cfg tgt nm pack enabled where ctx: "ctx = (cfg, tgt, nm, pack, enabled)"
      by (cases ctx) auto
    from b Inr ctx have bs: "before_start w = (Inr (cfg, tgt, nm, pack, enabled), ev)" by simp
    show ?thesis
    proof (cases "pack_start pack")
      case (Raises e)
      from start_failed[OF bs Raises run_start_failed[OF bs Raises]] show ?thesis .
    next
      case (Returns u)
      show ?thesis
      proof (cases "poll (timeout cfg) (pack_check pack) nm 0")
        case None
        from forever[OF bs None run_forever[OF bs Returns None]] show ?thesis .
      next
        case (Some y)
        obtain ex n pev where y: "y = (ex, n, pev)" by (cases y) auto
        from poll_exit_cases[of ex] show ?thesis
        proof (elim disjE exE)
          assume "ex = Timeout"
          with Some y have p: "poll (timeout cfg) (pack_check pack) nm 0 = Some (ex, n, pev)"
            and g: "ex = Timeout \<or> ex = Terminated" by simp_all
          from shutdown[OF bs p run_shutdown[OF bs Returns p g]] show ?thesis .
        next
          assume "ex = Terminated"
          with Some y have p: "poll (timeout cfg) (pack_check pack) nm 0 = Some (ex, n, pev)"
            and g: "ex = Timeout \<or> ex = Terminated" by simp_all
          from shutdown[OF bs p run_shutdown[OF bs Returns p g]] show ?thesis .
        next
          fix e assume "ex = Crashed e"
          with Some y have p: "poll (timeout cfg) (pack_check pack) nm 0 = Some (Crashed e, n, pev)"
            by simp
          from crashed[OF bs p run_crashed[OF bs Returns p]] show ?thesis .
        qed
      qed
    qed
  qed
qed

lemma before_start_no_Complete:
  "before_start w = (r, ev) \<Longrightarrow> \<forall>e \<in> set ev. \<not> is_Complete e"
  using before_start_events[of _ w] startup_not_Complete by fastforce

lemma poll_no_Complete:
  "poll tmo check nm c = Some (ex, n, pev) \<Longrightarrow> \<forall>e \<in> set pev. \<not> is_Complete e"
  using poll_events[of tmo check nm c "(ex, n, pev)"] is_Complete_shutdown by fastforce

lemma run_no_Complete:
  assumes "run w = Some (res, tr)"
  shows "\<forall>e \<in> set tr. \<not> is_Complete e"
proof (cases w rule: run_cases)
  case (aborted e ev)
  with assms before_start_no_Complete[OF aborted(1)] show ?thesis by simp
next
  case (start_failed cfg tgt nm pack enabled ev e)
  with assms before_start_no_Complete[OF start_failed(1)] show ?thesis by auto
next
  case (forever cfg tgt nm pack enabled ev)
  with assms show ?thesis by simp
next
  case (crashed cfg tgt nm pack enabled ev e n pev)
  with assms before_start_no_Complete[OF crashed(1)] poll_no_Complete[OF crashed(2)]
  show ?thesis by auto
next
  case (shutdown cfg tgt nm pack enabled ev ex n pev)
  obtain post where "snd (shutdown pack nm enabled) = PackFinish # post"
    and "\<forall>e \<in> set post. \<not> is_Complete e"
    using shutdown_shape[of pack nm enabled] by blast
  with assms shutdown(3) before_start_no_Complete[OF shutdown(1)] poll_no_Complete[OF shutdown(2)]
  show ?thesis by auto
qed

lemma run_terminates:
  assumes "\<forall>cfg. read_config w = Returns cfg \<longrightarrow> 1 \<le> timeout cfg"
  shows "\<exists>r. run w = Some r"
proof (cases w rule: run_cases)
  case (forever cfg tgt nm pack enabled ev)
  from forever(1) have "read_config w = Returns cfg"
    using before_start_config[of w cfg tgt nm pack enabled] by simp
  with assms have "int 0 < timeout cfg" by auto
  from poll_terminates[OF this, of "pack_check pack" nm] forever(2) show ?thesis by simp
qed simp_all


section \<open>The example run, evaluated\<close>

lemma example_before_start:
  "pack_init pack = Returns () \<Longrightarrow>
   before_start (example_world pack) =
     (Inr (example_config, ''http://example.org/'', ''modules.packages.default_browser'', pack,
           enumerate 0 example_auxiliaries),
      [LogInfo ''Starting analyzer from: /data/local/tmp'',
       LogInfo ''Storing results at: /tmp/results'',
       LogInfo ''Target is: http://example.org/'',
       ImportPackage ''modules.packages.default_browser'',
       LogWarning ''Failed parsing option (bad): need more than 1 value to unpack'',
       PackInit,
       AuxInit 0, AuxStart 0, LogInfo ''Started auxiliary module Sniffer'',
       AuxInit 1, AuxStart 1, LogInfo ''Started auxiliary module Screenshots''])"
  by (simp add: before_start_def example_world_def example_config_def example_auxiliaries_def
      prepare_def select_package_def load_package_def package_module_def and_then_def emit_def
      get_options_def parse_field_def unpack_pair_def strip_def is_space_def option_warning_def
      unpack_error_def try_start_def handle_start_def)

lemma example_poll:
  "poll 3 (\<lambda>k. Returns True) nm 0 =
     Some (Timeout, 3, [PackCheck 1, Sleep, PackCheck 2, Sleep, timeout_hit])"
  using poll_all_true[of 0 3 "\<lambda>k. Returns True" nm]
  by (simp add: upt_rec numeral_3_eq_3)

lemma example_main:
  "main (example_world example_driver) =
     Some (None,
      [LogInfo ''Starting analyzer from: /data/local/tmp'',
       LogInfo ''Storing results at: /tmp/results'',
       LogInfo ''Target is: http://example.org/'',
       ImportPackage ''modules.packages.default_browser'',
       LogWarning ''Failed parsing option (bad): need more than 1 value to unpack'',
       PackInit,
       AuxInit 0, AuxStart 0, LogInfo ''Started auxiliary module Sniffer'',
       AuxInit 1, AuxStart 1, LogInfo ''Started auxiliary module Screenshots'',
       PackStart, PackCheck 1, Sleep, PackCheck 2, Sleep, timeout_hit,
       PackFinish, AuxStop 0, LogWarning ''Cannot terminate auxiliary module Sniffer: boom'',
       AuxStop 1, LogInfo ''Analysis completed'',
       Complete True [] ''/tmp/results''])"
proof -
  have i: "pack_init example_driver = Returns ()" by (simp add: example_driver_def)
  show ?thesis
    by (simp add: main_def run_def example_before_start[OF i] start_package_def)
       (simp add: example_driver_def example_config_def example_poll emit_def shutdown_def
          stop_and_complete_def finish_package_def and_then_def example_auxiliaries_def
          is_not_implemented_def is_Exception_def example_world_def)
qed


section \<open>The claims about the run\<close>

text \<open>
  Claim C1. Every run of the main program that ends makes exactly one call
  \<open>server.complete\<close>, as its last action, whatever way \<open>run\<close> ended: by returning, by an
  exception that \<open>except Exception\<close> catches (the aborts of the selection, of the import
  and of \<open>pack.start\<close>), by \<open>KeyboardInterrupt\<close>, or by any other exception. With a
  timeout of at least 1 in the configuration, every run ends.
\<close>

theorem main_reports_once:
  "(\<forall>p tr. main w = Some (p, tr) \<longrightarrow>
      (\<exists>success error. filter is_Complete tr = [Complete success error (root w)] \<and>
         last tr = Complete success error (root w)))
   \<and> ((\<forall>cfg. read_config w = Returns cfg \<longrightarrow> 1 \<le> timeout cfg) \<longrightarrow> (\<exists>p tr. main w = Some (p, tr)))"
proof (intro conjI allI impI)
  fix p tr
  assume m: "main w = Some (p, tr)"
  then obtain res ev where r: "run w = Some (res, ev)"
    by (cases "run w") (auto simp: main_def)
  from run_no_Complete[OF r] have none: "filter is_Complete ev = []"
    by (simp add: filter_empty_conv)
  show "\<exists>success error. filter is_Complete tr = [Complete success error (root w)] \<and>
         last tr = Complete success error (root w)"
  proof (cases res)
    case (Inr success)
    with m r none show ?thesis by (auto simp: main_def)
  next
    case (Inl e)
    with m r none show ?thesis by (auto simp: main_def split: if_splits)
  qed
next
  assume "\<forall>cfg. read_config w = Returns cfg \<longrightarrow> 1 \<le> timeout cfg"
  from run_terminates[OF this] obtain res ev where "run w = Some (res, ev)" by auto
  then show "\<exists>p tr. main w = Some (p, tr)"
    by (cases res) (auto simp: main_def)
qed

theorem main_reports_once_witness:
  "\<exists>p tr success error. main (example_world example_driver) = Some (p, tr) \<and>
     filter is_Complete tr = [Complete success error ''/tmp/results''] \<and>
     last tr = Complete success error ''/tmp/results''"
  using main_reports_once [of "example_world example_driver"]
  by (auto simp: example_world_def example_config_def)


lemma poll_exit_reason:
  assumes "poll tmo check nm c = Some y"
  shows "(fst y = Timeout \<longrightarrow> int (fst (snd y)) = tmo) \<and>
         (fst y = Terminated \<longrightarrow> check (fst (snd y)) = Returns False) \<and>
         (\<forall>e. fst y = Crashed e \<longrightarrow> check (fst (snd y)) = Raises e \<and> \<not> is_Exception e)"
  using assms
proof (induction tmo check nm c y rule: poll.raw_induct[rotated 1, consumes 1, case_names step])
  case (step pollf tmo check nm c y)
  from step.hyps show ?case
    by (auto simp: Let_def bind_eq_Some_conv emit_poll_def dest!: step.IH
        split: if_splits outcome.splits)
qed

text \<open>
  Claim C2, as amended. The timeout test of line 185 comes before the call of \<open>check()\<close>,
  so the pass in which \<open>time_counter\<close> reaches the timeout does not poll. With a timeout
  N of at least 1 and a \<open>check()\<close> that always returns true, the loop calls \<open>check()\<close>
  exactly N - 1 times, in the passes 1 to N - 1, sleeps after each call, and ends by the
  timeout in pass N before any call: the events are exactly these calls and sleeps,
  then the timeout message. When \<open>check()\<close> returns true in the passes before k and
  false in pass k, for a k below N, the loop ends in pass k at the request of the
  package, after exactly k calls.
\<close>

theorem poll_iterations:
  "(1 \<le> N \<and> (\<forall>k. check k = Returns True) \<longrightarrow>
      (\<exists>ev. poll N check nm 0 = Some (Timeout, nat N, ev) \<and>
            ev = concat (map (\<lambda>k. [PackCheck k, Sleep]) [1..<nat N]) @ [timeout_hit] \<and>
            filter is_PackCheck ev = map PackCheck [1..<nat N] \<and>
            length (filter is_PackCheck ev) = nat N - 1))
   \<and> (1 \<le> k \<and> int k < N \<and> (\<forall>j. 1 \<le> j \<and> j < k \<longrightarrow> check j = Returns True) \<and>
       check k = Returns False \<longrightarrow>
      (\<exists>ev. poll N check nm 0 = Some (Terminated, k, ev) \<and>
            ev = concat (map (\<lambda>j. [PackCheck j, Sleep]) [1..<k]) @
                 [PackCheck k, termination_requested, Sleep] \<and>
            filter is_PackCheck ev = map PackCheck [1..<Suc k] \<and>
            length (filter is_PackCheck ev) = k))"
proof (intro conjI impI)
  assume a: "1 \<le> N \<and> (\<forall>k. check k = Returns True)"
  then have "int 0 < N" and "\<forall>k. 0 < k \<and> int k < N \<longrightarrow> check k = Returns True" by simp_all
  from poll_all_true[OF this, of nm]
  show "\<exists>ev. poll N check nm 0 = Some (Timeout, nat N, ev) \<and>
            ev = concat (map (\<lambda>k. [PackCheck k, Sleep]) [1..<nat N]) @ [timeout_hit] \<and>
            filter is_PackCheck ev = map PackCheck [1..<nat N] \<and>
            length (filter is_PackCheck ev) = nat N - 1"
    by (simp add: filter_checks timeout_hit_def)
next
  assume a: "1 \<le> k \<and> int k < N \<and> (\<forall>j. 1 \<le> j \<and> j < k \<longrightarrow> check j = Returns True) \<and>
       check k = Returns False"
  then have "0 < k" "int k < N" "\<forall>j. 0 < j \<and> j < k \<longrightarrow> check j = Returns True"
    "check k = Returns False" by (simp_all add: Suc_le_eq)
  from poll_false_at[OF this, of nm]
  show "\<exists>ev. poll N check nm 0 = Some (Terminated, k, ev) \<and>
            ev = concat (map (\<lambda>j. [PackCheck j, Sleep]) [1..<k]) @
                 [PackCheck k, termination_requested, Sleep] \<and>
            filter is_PackCheck ev = map PackCheck [1..<Suc k] \<and>
            length (filter is_PackCheck ev) = k"
    using \<open>0 < k\<close> by (simp add: filter_checks termination_requested_def)
qed

theorem poll_iterations_witness:
  "(\<exists>ev. poll 3 always_true_check ''p'' 0 = Some (Timeout, 3, ev) \<and>
         ev = [PackCheck 1, Sleep, PackCheck 2, Sleep, timeout_hit] \<and>
         length (filter is_PackCheck ev) = 2)
   \<and> (\<exists>ev. poll 5 (\<lambda>k. Returns (k \<noteq> 2)) ''p'' 0 = Some (Terminated, 2, ev) \<and>
            ev = [PackCheck 1, Sleep, PackCheck 2, termination_requested, Sleep] \<and>
            length (filter is_PackCheck ev) = 2)"
  using poll_iterations [of 3 always_true_check "''p''" 0]
        poll_iterations [of 5 "\<lambda>k. Returns (k \<noteq> 2)" "''p''" 2]
  by (auto simp: upt_rec numeral_3_eq_3 numeral_2_eq_2 always_true_check_def)

text \<open>
  Counterexample to claim C2 as it is stated (exactly N poll iterations before the exit
  by timeout): with a timeout of 1 and a \<open>check()\<close> that always returns true, the loop
  ends by the timeout in its first pass; \<open>check()\<close> is not called and the loop does not
  sleep, so the number of polls is 0 and not 1.
\<close>

theorem poll_iterations_counterexample:
  "poll 1 always_true_check ''p'' 0 = Some (Timeout, 1, [timeout_hit])
   \<and> length (filter is_PackCheck [timeout_hit]) = 0
   \<and> Sleep \<notin> set [timeout_hit]"
  using poll_timeout [of 0 1 always_true_check "''p''"]
  by (simp add: timeout_hit_def)

text \<open>
  Claim C6. An exception that \<open>check()\<close> raises and \<open>except Exception\<close> catches is
  contained. The loop with such a \<open>check()\<close> ends the same way, in the same pass and with
  the same events, warnings apart, as the loop in which these calls return true, and it
  ends if and only if that one does. The loop never ends in a pass because of such an
  exception (it ends there only by the timeout, before the call), and every such
  exception raised in an earlier pass was logged as a warning. From a counter below
  the timeout the loop always ends.
\<close>

theorem check_faults_contained:
  "map_option without_warnings (poll N check nm c) = poll N (as_if_true check) nm c
   \<and> (poll N check nm c = Some (ex, n, ev) \<and> c < k \<and> k \<le> n \<and>
       check k = Raises e \<and> is_Exception e \<longrightarrow>
        (k = n \<longrightarrow> ex = Timeout) \<and> (k < n \<longrightarrow> check_warning nm e \<in> set ev))
   \<and> (poll N check nm c = Some (ex, n, ev) \<and> (\<forall>j x. check j = Raises x \<longrightarrow> is_Exception x) \<longrightarrow>
        ex = Timeout \<or> ex = Terminated)
   \<and> (int c < N \<longrightarrow> (\<exists>r. poll N check nm c = Some r))"
proof -
  have 1: "map_option without_warnings (poll N check nm c) = poll N (as_if_true check) nm c"
    by (rule poll_as_if_true)
  have 2: "(k = n \<longrightarrow> ex = Timeout) \<and> (k < n \<longrightarrow> check_warning nm e \<in> set ev)"
    if "poll N check nm c = Some (ex, n, ev) \<and> c < k \<and> k \<le> n \<and>
       check k = Raises e \<and> is_Exception e"
    using poll_passes[of N check nm c "(ex, n, ev)"] that by auto
  have 3: "ex = Timeout \<or> ex = Terminated"
    if "poll N check nm c = Some (ex, n, ev) \<and> (\<forall>j x. check j = Raises x \<longrightarrow> is_Exception x)"
    using poll_exit_reason[of N check nm c "(ex, n, ev)"] that poll_exit_cases[of ex] by auto
  have 4: "\<exists>r. poll N check nm c = Some r" if "int c < N"
    using that by (rule poll_terminates)
  from 1 2 3 4 show ?thesis by blast
qed

lemma example_poll_raising:
  "poll 3 raising_check ''p'' 0 =
     Some (Timeout, 3,
           [PackCheck 1, check_warning ''p'' (Exc OtherException ''x''), Sleep,
            PackCheck 2, Sleep, timeout_hit])"
proof -
  have 3: "poll 3 raising_check ''p'' (Suc (Suc 0)) = Some (Timeout, 3, [timeout_hit])"
    using poll_timeout[of "Suc (Suc 0)" 3 raising_check "''p''"] by simp
  have 2: "poll 3 raising_check ''p'' (Suc 0) =
             Some (Timeout, 3, [PackCheck (Suc (Suc 0)), Sleep, timeout_hit])"
    using poll_true[of "Suc 0" 3 raising_check "''p''"] 3
    by (simp add: emit_poll_def raising_check_def)
  show ?thesis
    using poll_contained[of 0 3 raising_check "Exc OtherException ''x''" "''p''"] 2
    by (simp add: emit_poll_def is_Exception_def raising_check_def numeral_2_eq_2)
qed

theorem check_faults_contained_witness:
  "poll 3 raising_check ''p'' 0 =
     Some (Timeout, 3,
           [PackCheck 1, check_warning ''p'' (Exc OtherException ''x''), Sleep,
            PackCheck 2, Sleep, timeout_hit])
   \<and> poll 3 (as_if_true raising_check) ''p'' 0 =
     Some (Timeout, 3, [PackCheck 1, Sleep, PackCheck 2, Sleep, timeout_hit])
   \<and> check_warning ''p'' (Exc OtherException ''x'') \<in>
       set [PackCheck 1, check_warning ''p'' (Exc OtherException ''x''), Sleep,
            PackCheck 2, Sleep, timeout_hit]"
  using check_faults_contained
    [of 3 raising_check "''p''" 0 Timeout 3
        "[PackCheck 1, check_warning ''p'' (Exc OtherException ''x''), Sleep,
          PackCheck 2, Sleep, timeout_hit]"
        1 "Exc OtherException ''x''"]
  by (simp add: example_poll_raising without_warnings_def check_warning_def timeout_hit_def)


lemma emit_pair: "emit ev (r, ev') = (r, ev @ ev')"
  by (simp add: emit_def)

lemma and_then_pair_Inl: "and_then (Inl e, ev) f = (Inl e, ev)"
  by (simp add: and_then_def)

lemma and_then_pair_Inr: "and_then (Inr x, ev) f = emit ev (f x)"
  by (simp add: and_then_def)

lemma start_auxiliaries_all_recorded:
  "(\<forall>a \<in> set auxs. aux_init a = Returns () \<and> (\<forall>e. aux_start a = Raises e \<longrightarrow> is_Exception e)) \<Longrightarrow>
     fst (start_auxiliaries (enumerate n auxs) aux enabled) = Inr (enabled @ enumerate n auxs)"
proof (induction auxs arbitrary: n aux enabled)
  case Nil
  then show ?case by simp
next
  case (Cons a auxs)
  then have init: "aux_init a = Returns ()"
    and start: "\<forall>e. aux_start a = Raises e \<longrightarrow> is_Exception e"
    and rest: "\<forall>a \<in> set auxs. aux_init a = Returns () \<and> (\<forall>e. aux_start a = Raises e \<longrightarrow> is_Exception e)"
    by simp_all
  note ih = Cons.IH[OF rest]
  show ?case
  proof (cases "aux_start a")
    case (Returns u)
    with init ih show ?thesis
      by (simp add: try_start_def handle_start_def fst_emit)
  next
    case (Raises e)
    with start have "is_Exception e" by simp
    with init Raises ih show ?thesis
      by (simp add: try_start_def handle_start_def fst_emit)
  qed
qed

text \<open>
  Claim C3 (the code does not meet it). A failure of \<open>start()\<close> of an auxiliary module
  is logged and the loop goes on, but the \<open>finally\<close> clause of the loop then logs
  \<open>Started auxiliary module\<close> and appends the module to \<open>aux_enabled\<close> all the same: for the
  module \<open>failing_auxiliary\<close>, whose \<open>start()\<close> raises, the list recorded for the shutdown
  holds the module, and the shutdown calls its \<open>stop()\<close>.
\<close>

theorem failed_auxiliary_is_recorded:
  "start_auxiliaries [(0, failing_auxiliary)] None [] =
     (Inr [(0, failing_auxiliary)],
      [AuxInit 0, AuxStart 0, LogWarning ''Cannot execute auxiliary module Sniffer: boom'',
       LogInfo ''Started auxiliary module Sniffer''])
   \<and> stop_auxiliaries [(0, failing_auxiliary)] = (Inr (), [AuxStop 0])"
  by (simp add: try_start_def handle_start_def failing_auxiliary_def is_not_implemented_def
      is_Exception_def emit_def)

text \<open>
  Claim C4. When the import of the package module raises \<open>ImportError\<close>, the run ends
  before any auxiliary module is constructed or started, and the one call to the agent
  carries \<open>success = False\<close> and an error message that contains the name of the package.
\<close>

theorem unresolvable_package_aborts:
  assumes "fst (prepare w) = Inr (cfg, tgt)"
    and "fst (select_package w cfg) = Inr p"
    and "import_package w (package_module p) = Raises e"
    and "exc_class e = ImportError"
  shows "\<exists>tr. main w = Some (None, tr) \<and>
           last tr = Complete False (import_error_message (package_module p)) (root w) \<and>
           sublist p (import_error_message (package_module p)) \<and>
           (\<forall>i. AuxInit i \<notin> set tr \<and> AuxStart i \<notin> set tr)"
proof -
  let ?nm = "package_module p"
  let ?logs = "[LogInfo (''Starting analyzer from: '' @ cwd w),
                LogInfo (''Storing results at: '' @ root w),
                LogInfo (''Target is: '' @ tgt)]"
  from assms(1) have prep: "prepare w = (Inr (cfg, tgt), [])"
    using prepare_events[of w] by (cases "prepare w") simp
  from assms(2) obtain sev where sel: "select_package w cfg = (Inr p, sev)"
    by (cases "select_package w cfg") simp
  from assms(3,4) have load:
    "load_package w cfg ?nm = (Inl (Exc CuckooError (import_error_message ?nm)), [ImportPackage ?nm])"
    by (simp add: load_package_def)
  have "before_start w =
          (Inl (Exc CuckooError (import_error_message ?nm)), ?logs @ sev @ [ImportPackage ?nm])"
    by (simp add: before_start_def prep sel load and_then_pair_Inl and_then_pair_Inr emit_pair)
  from run_aborted[OF this]
  have m: "main w = Some (None, ?logs @ sev @
             [ImportPackage ?nm,
              if 0 < log_handlers w then LogCritical (import_error_message ?nm)
              else StderrWrite (import_error_message ?nm @ [CHR 0x0A]),
              Complete False (import_error_message ?nm) (root w)])"
    by (simp add: main_def is_Exception_def)
  have sev: "\<forall>i. AuxInit i \<notin> set sev \<and> AuxStart i \<notin> set sev"
    using select_package_events[of _ w cfg] sel by auto
  have sub: "sublist p (import_error_message ?nm)"
    unfolding sublist_def import_error_message_def quoted_def package_module_def
    by (rule exI[of _ "''Unable to import package '' @ [CHR 0x22] @ ''modules.packages.''"],
        rule exI[of _ "[CHR 0x22] @ '', does not exist.''"]) simp
  from m sev sub show ?thesis by auto
qed

theorem unresolvable_package_aborts_witness:
  "\<exists>tr. main ((example_world example_driver)
                 \<lparr>import_package := \<lambda>name. Raises (Exc ImportError ''No module named default_browser'')\<rparr>)
           = Some (None, tr) \<and>
        last tr = Complete False (import_error_message ''modules.packages.default_browser'')
                    ''/tmp/results'' \<and>
        sublist ''default_browser'' (import_error_message ''modules.packages.default_browser'') \<and>
        (\<forall>i. AuxInit i \<notin> set tr \<and> AuxStart i \<notin> set tr)"
  using unresolvable_package_aborts
    [of "(example_world example_driver)
           \<lparr>import_package := \<lambda>name. Raises (Exc ImportError ''No module named default_browser'')\<rparr>"
        example_config "''http://example.org/''" "''default_browser''"
        "Exc ImportError ''No module named default_browser''"]
  by (simp add: example_world_def example_config_def prepare_def select_package_def
      package_module_def)


lemma start_messages_distinct:
  "not_implemented_message nm \<noteq> package_error_message nm s \<and>
   not_implemented_message nm \<noteq> unhandled_message nm s' \<and>
   package_error_message nm s \<noteq> unhandled_message nm s'"
  by (simp add: not_implemented_message_def package_error_message_def unhandled_message_def)

lemma main_of_run_Inl:
  "run w = Some (Inl e, ev) \<Longrightarrow>
     \<exists>p tr m. main w = Some (p, tr) \<and> last tr = Complete False m (root w) \<and>
       (is_Exception e \<longrightarrow> m = exc_str e)"
  by (auto simp: main_def is_Exception_def)

text \<open>
  Claim C5. When \<open>pack.start\<close> raises, \<open>run\<close> ends there with an exception, whatever was
  raised: nothing of the polling loop or of the shutdown happens, and the call to the
  agent carries \<open>success = False\<close>. For \<open>NotImplementedError\<close>, for \<open>CuckooPackageError\<close>
  and for any other instance of \<open>Exception\<close> the error message is the one of the
  clause of the source that catches it, and for one package the three messages are
  pairwise different, whatever the text of the exception.
\<close>

theorem start_failure_fatal:
  assumes "before_start w = (Inr (cfg, tgt, nm, pack, enabled), ev)"
    and "pack_start pack = Raises e"
  shows "run w = Some (Inl (start_failure nm e), ev @ [PackStart])
    \<and> (\<exists>p tr m. main w = Some (p, tr) \<and> last tr = Complete False m (root w) \<and>
          (is_Exception e \<longrightarrow> m = exc_str (start_failure nm e)))
    \<and> (exc_class e = NotImplementedError \<longrightarrow>
          exc_str (start_failure nm e) = not_implemented_message nm)
    \<and> (exc_class e = CuckooPackageError \<longrightarrow>
          exc_str (start_failure nm e) = package_error_message nm (exc_str e))
    \<and> (is_Exception e \<and> exc_class e \<noteq> NotImplementedError \<and> exc_class e \<noteq> CuckooPackageError \<longrightarrow>
          exc_str (start_failure nm e) = unhandled_message nm (exc_str e))
    \<and> not_implemented_message nm \<noteq> package_error_message nm s
    \<and> not_implemented_message nm \<noteq> unhandled_message nm s'
    \<and> package_error_message nm s \<noteq> unhandled_message nm s'"
proof -
  have r: "run w = Some (Inl (start_failure nm e), ev @ [PackStart])"
    using assms by (rule run_start_failed)
  have exc: "is_Exception e \<Longrightarrow> is_Exception (start_failure nm e)"
    by (simp add: start_failure_def is_Exception_def)
  from main_of_run_Inl[OF r] exc
  have m: "\<exists>p tr m. main w = Some (p, tr) \<and> last tr = Complete False m (root w) \<and>
          (is_Exception e \<longrightarrow> m = exc_str (start_failure nm e))"
    by blast
  have msgs: "exc_class e = NotImplementedError \<longrightarrow>
          exc_str (start_failure nm e) = not_implemented_message nm"
    "exc_class e = CuckooPackageError \<longrightarrow>
          exc_str (start_failure nm e) = package_error_message nm (exc_str e)"
    "is_Exception e \<and> exc_class e \<noteq> NotImplementedError \<and> exc_class e \<noteq> CuckooPackageError \<longrightarrow>
          exc_str (start_failure nm e) = unhandled_message nm (exc_str e)"
    by (simp_all add: start_failure_def)
  from r m msgs start_messages_distinct[of nm s s'] show ?thesis by blast
qed

lemma example_before_start_events:
  "pack_init pack = Returns () \<Longrightarrow>
     \<exists>ev. before_start (example_world pack) =
       (Inr (example_config, ''http://example.org/'', ''modules.packages.default_browser'', pack,
             enumerate 0 example_auxiliaries), ev)"
  using example_before_start by blast

theorem start_failure_fatal_witness:
  "\<exists>ev. run (example_world (example_driver\<lparr>pack_start := Raises (Exc NotImplementedError [])\<rparr>)) =
     Some (Inl (Exc CuckooError (not_implemented_message ''modules.packages.default_browser'')),
           ev @ [PackStart])"
proof -
  let ?d = "example_driver\<lparr>pack_start := Raises (Exc NotImplementedError [])\<rparr>"
  have "pack_init ?d = Returns ()" by (simp add: example_driver_def)
  from example_before_start_events[OF this] obtain ev where
    b: "before_start (example_world ?d) =
       (Inr (example_config, ''http://example.org/'', ''modules.packages.default_browser'', ?d,
             enumerate 0 example_auxiliaries), ev)" ..
  have s: "pack_start ?d = Raises (Exc NotImplementedError [])" by simp
  from start_failure_fatal [OF b s] show ?thesis
    by (auto simp: start_failure_def)
qed


lemma before_start_no_shutdown:
  "before_start w = (r, ev) \<Longrightarrow> PackFinish \<notin> set ev \<and> (\<forall>i. AuxStop i \<notin> set ev)"
  using before_start_events[of _ w] by (fastforce simp: startup_event_def)

lemma poll_no_shutdown:
  "poll tmo check nm c = Some (ex, n, pev) \<Longrightarrow> PackFinish \<notin> set pev \<and> (\<forall>i. AuxStop i \<notin> set pev)"
  using poll_events[of tmo check nm c "(ex, n, pev)"] by fastforce

lemma stop_and_complete_no_finish: "PackFinish \<notin> set (snd (stop_and_complete xs))"
  using stop_and_complete_events[of PackFinish xs] by blast

text \<open>
  Claim C8. In a run in which \<open>pack.start\<close> returned and the polling loop ended by the
  timeout or at the request of the package, the trace holds \<open>finish()\<close> exactly once,
  and no \<open>stop()\<close> of an auxiliary module before it. When \<open>finish()\<close> returns, or raises
  an exception that \<open>except Exception\<close> catches, the run goes on with the shutdown of
  the auxiliary modules exactly as it does after a \<open>finish()\<close> that returned, with one
  warning more in the second case. In a run in which \<open>pack.start\<close> raised, and in a run
  that ended before \<open>pack.start\<close>, \<open>finish()\<close> is not called.
\<close>

theorem finish_once:
  "(before_start w = (Inr (cfg, tgt, nm, pack, enabled), ev) \<and> pack_start pack = Returns u \<and>
    poll (timeout cfg) (pack_check pack) nm 0 = Some (ex, n, pev) \<and>
    (ex = Timeout \<or> ex = Terminated) \<longrightarrow>
      (\<exists>res post. run w = Some (res, (ev @ PackStart # pev) @ PackFinish # post) \<and>
         PackFinish \<notin> set (ev @ PackStart # pev) \<and> PackFinish \<notin> set post \<and>
         (\<forall>i. AuxStop i \<notin> set (ev @ PackStart # pev)) \<and>
         (pack_finish pack = Returns () \<longrightarrow>
            res = fst (stop_and_complete enabled) \<and> post = snd (stop_and_complete enabled)) \<and>
         (\<forall>e. pack_finish pack = Raises e \<and> is_Exception e \<longrightarrow>
            res = fst (stop_and_complete enabled) \<and>
            post = finish_warning nm e # snd (stop_and_complete enabled))))
   \<and> (before_start w = (Inr (cfg, tgt, nm, pack, enabled), ev) \<and> pack_start pack = Raises x \<longrightarrow>
        (\<exists>res tr. run w = Some (res, tr) \<and> PackFinish \<notin> set tr))
   \<and> (before_start w = (Inl x, ev) \<longrightarrow>
        (\<exists>res tr. run w = Some (res, tr) \<and> PackFinish \<notin> set tr))"
proof -
  have a: "\<exists>res post. run w = Some (res, (ev @ PackStart # pev) @ PackFinish # post) \<and>
         PackFinish \<notin> set (ev @ PackStart # pev) \<and> PackFinish \<notin> set post \<and>
         (\<forall>i. AuxStop i \<notin> set (ev @ PackStart # pev)) \<and>
         (pack_finish pack = Returns () \<longrightarrow>
            res = fst (stop_and_complete enabled) \<and> post = snd (stop_and_complete enabled)) \<and>
         (\<forall>e. pack_finish pack = Raises e \<and> is_Exception e \<longrightarrow>
            res = fst (stop_and_complete enabled) \<and>
            post = finish_warning nm e # snd (stop_and_complete enabled))"
    if h: "before_start w = (Inr (cfg, tgt, nm, pack, enabled), ev) \<and> pack_start pack = Returns u \<and>
      poll (timeout cfg) (pack_check pack) nm 0 = Some (ex, n, pev) \<and>
      (ex = Timeout \<or> ex = Terminated)"
  proof -
    from h have b: "before_start w = (Inr (cfg, tgt, nm, pack, enabled), ev)"
      and s: "pack_start pack = Returns u"
      and p: "poll (timeout cfg) (pack_check pack) nm 0 = Some (ex, n, pev)"
      and g: "ex = Timeout \<or> ex = Terminated" by simp_all
    note r = run_shutdown[OF b s p g]
    from before_start_no_shutdown[OF b] poll_no_shutdown[OF p]
    have pre: "PackFinish \<notin> set (ev @ PackStart # pev)" "\<forall>i. AuxStop i \<notin> set (ev @ PackStart # pev)"
      by auto
    note nf = stop_and_complete_no_finish[of enabled]
    show ?thesis
    proof (cases "pack_finish pack")
      case (Returns v)
      with r pre nf show ?thesis by (simp add: shutdown_returns)
    next
      case (Raises e)
      show ?thesis
      proof (cases "is_Exception e")
        case True
        with Raises r pre nf show ?thesis
          by (simp add: shutdown_contained finish_warning_def)
      next
        case False
        with Raises r pre show ?thesis by (simp add: shutdown_crashed)
      qed
    qed
  qed
  have b: "\<exists>res tr. run w = Some (res, tr) \<and> PackFinish \<notin> set tr"
    if h: "before_start w = (Inr (cfg, tgt, nm, pack, enabled), ev) \<and> pack_start pack = Raises x"
  proof -
    from h have b: "before_start w = (Inr (cfg, tgt, nm, pack, enabled), ev)"
      and s: "pack_start pack = Raises x" by simp_all
    from run_start_failed[OF b s] before_start_no_shutdown[OF b] show ?thesis by simp
  qed
  have c: "\<exists>res tr. run w = Some (res, tr) \<and> PackFinish \<notin> set tr"
    if h: "before_start w = (Inl x, ev)"
    using run_aborted[OF h] before_start_no_shutdown[OF h] by simp
  from a b c show ?thesis by blast
qed

lemma example_stop_and_complete:
  "stop_and_complete (enumerate 0 example_auxiliaries) =
     (Inr True,
      [AuxStop 0, LogWarning ''Cannot terminate auxiliary module Sniffer: boom'', AuxStop 1,
       LogInfo ''Analysis completed''])"
  by (simp add: stop_and_complete_def example_auxiliaries_def is_not_implemented_def
      is_Exception_def emit_pair and_then_pair_Inr)

lemma example_stops_contained:
  "\<forall>a \<in> set (enumerate 0 example_auxiliaries). \<forall>e. aux_stop (snd a) = Raises e \<longrightarrow> is_Exception e"
  by (simp add: example_auxiliaries_def is_Exception_def)

theorem finish_once_witness:
  "(\<exists>ev post. run (example_world (example_driver\<lparr>pack_finish := Raises (Exc OtherException ''late'')\<rparr>)) =
       Some (Inr True,
             (ev @ PackStart # [PackCheck 1, Sleep, PackCheck 2, Sleep, timeout_hit]) @
             PackFinish # post) \<and>
     PackFinish \<notin> set ev \<and> PackFinish \<notin> set post \<and>
     post = finish_warning ''modules.packages.default_browser'' (Exc OtherException ''late'') #
            [AuxStop 0, LogWarning ''Cannot terminate auxiliary module Sniffer: boom'', AuxStop 1,
             LogInfo ''Analysis completed''])
   \<and> (\<exists>res tr. run (example_world (example_driver\<lparr>pack_start := Raises (Exc OtherException ''early'')\<rparr>)) =
         Some (res, tr) \<and> PackFinish \<notin> set tr)"
proof -
  let ?d = "example_driver\<lparr>pack_finish := Raises (Exc OtherException ''late'')\<rparr>"
  let ?d' = "example_driver\<lparr>pack_start := Raises (Exc OtherException ''early'')\<rparr>"
  let ?nm = "''modules.packages.default_browser''"
  let ?pev = "[PackCheck 1, Sleep, PackCheck 2, Sleep, timeout_hit]"
  have "pack_init ?d = Returns ()" by (simp add: example_driver_def)
  from example_before_start_events[OF this] obtain ev where
    b: "before_start (example_world ?d) =
       (Inr (example_config, ''http://example.org/'', ?nm, ?d, enumerate 0 example_auxiliaries), ev)" ..
  have s: "pack_start ?d = Returns ()" by (simp add: example_driver_def)
  have p: "poll (timeout example_config) (pack_check ?d) ?nm 0 = Some (Timeout, 3, ?pev)"
    by (simp add: example_config_def example_driver_def example_poll)
  have f: "pack_finish ?d = Raises (Exc OtherException ''late'')" "is_Exception (Exc OtherException ''late'')"
    by (simp_all add: is_Exception_def)
  have "pack_init ?d' = Returns ()" by (simp add: example_driver_def)
  from example_before_start_events[OF this] obtain ev' where
    b': "before_start (example_world ?d') =
       (Inr (example_config, ''http://example.org/'', ?nm, ?d', enumerate 0 example_auxiliaries), ev')" ..
  have s': "pack_start ?d' = Raises (Exc OtherException ''early'')" by simp
  from finish_once [of "example_world ?d" example_config "''http://example.org/''" ?nm ?d
                       "enumerate 0 example_auxiliaries" ev "()" Timeout 3 ?pev]
       b s p f
  have 1: "\<exists>post. run (example_world ?d) =
       Some (Inr True, (ev @ PackStart # ?pev) @ PackFinish # post) \<and>
     PackFinish \<notin> set ev \<and> PackFinish \<notin> set post \<and>
     post = finish_warning ?nm (Exc OtherException ''late'') #
            [AuxStop 0, LogWarning ''Cannot terminate auxiliary module Sniffer: boom'', AuxStop 1,
             LogInfo ''Analysis completed'']"
    by (auto simp: example_stop_and_complete)
  from finish_once [of "example_world ?d'" example_config "''http://example.org/''" ?nm ?d'
                       "enumerate 0 example_auxiliaries" ev' "()" Timeout 3 ?pev
                       "Exc OtherException ''early''"]
       b' s'
  have 2: "\<exists>res tr. run (example_world ?d') = Some (res, tr) \<and> PackFinish \<notin> set tr"
    by blast
  from 1 2 show ?thesis by blast
qed

text \<open>
  Containment of the failures of \<open>stop()\<close>. The shutdown calls \<open>stop()\<close> once for every
  entry of \<open>aux_enabled\<close>, in the order of the list, when every exception that a
  \<open>stop()\<close> raises is one that \<open>except Exception\<close> catches: no such exception ends the
  loop or the run. In a run that reaches the shutdown and whose \<open>finish()\<close> does not end
  the run, these are all the \<open>stop()\<close> calls of the run, and \<open>run\<close> returns \<open>True\<close>.
\<close>

lemma stop_once_per_entry:
  "((\<forall>a \<in> set enabled. \<forall>e. aux_stop (snd a) = Raises e \<longrightarrow> is_Exception e) \<longrightarrow>
      fst (stop_auxiliaries enabled) = Inr () \<and>
      filter is_AuxStop (snd (stop_auxiliaries enabled)) = map (\<lambda>a. AuxStop (fst a)) enabled)
   \<and> (before_start w = (Inr (cfg, tgt, nm, pack, enabled), ev) \<and> pack_start pack = Returns u \<and>
       poll (timeout cfg) (pack_check pack) nm 0 = Some (ex, n, pev) \<and>
       (ex = Timeout \<or> ex = Terminated) \<and>
       (\<forall>e. pack_finish pack = Raises e \<longrightarrow> is_Exception e) \<and>
       (\<forall>a \<in> set enabled. \<forall>e. aux_stop (snd a) = Raises e \<longrightarrow> is_Exception e) \<longrightarrow>
        (\<exists>tr. run w = Some (Inr True, tr) \<and>
              filter is_AuxStop tr = map (\<lambda>a. AuxStop (fst a)) enabled))"
proof -
  have a: "fst (stop_auxiliaries enabled) = Inr () \<and>
      filter is_AuxStop (snd (stop_auxiliaries enabled)) = map (\<lambda>a. AuxStop (fst a)) enabled"
    if "\<forall>a \<in> set enabled. \<forall>e. aux_stop (snd a) = Raises e \<longrightarrow> is_Exception e"
    using that by (rule stop_auxiliaries_contained)
  have b: "\<exists>tr. run w = Some (Inr True, tr) \<and>
              filter is_AuxStop tr = map (\<lambda>a. AuxStop (fst a)) enabled"
    if h: "before_start w = (Inr (cfg, tgt, nm, pack, enabled), ev) \<and> pack_start pack = Returns u \<and>
       poll (timeout cfg) (pack_check pack) nm 0 = Some (ex, n, pev) \<and>
       (ex = Timeout \<or> ex = Terminated) \<and>
       (\<forall>e. pack_finish pack = Raises e \<longrightarrow> is_Exception e) \<and>
       (\<forall>a \<in> set enabled. \<forall>e. aux_stop (snd a) = Raises e \<longrightarrow> is_Exception e)"
  proof -
    from h have b: "before_start w = (Inr (cfg, tgt, nm, pack, enabled), ev)"
      and s: "pack_start pack = Returns u"
      and p: "poll (timeout cfg) (pack_check pack) nm 0 = Some (ex, n, pev)"
      and g: "ex = Timeout \<or> ex = Terminated"
      and f: "\<forall>e. pack_finish pack = Raises e \<longrightarrow> is_Exception e"
      and st: "\<forall>a \<in> set enabled. \<forall>e. aux_stop (snd a) = Raises e \<longrightarrow> is_Exception e"
      by simp_all
    note r = run_shutdown[OF b s p g]
    from before_start_no_shutdown[OF b] poll_no_shutdown[OF p]
    have pre: "filter is_AuxStop (ev @ PackStart # pev) = []"
      by (auto simp: filter_empty_conv elim: is_AuxStop.elims)
    from stop_and_complete_contained[OF st]
    have sc: "fst (stop_and_complete enabled) = Inr True"
      "filter is_AuxStop (snd (stop_and_complete enabled)) = map (\<lambda>a. AuxStop (fst a)) enabled"
      by simp_all
    show ?thesis
    proof (cases "pack_finish pack")
      case (Returns v)
      with r pre sc show ?thesis by (simp add: shutdown_returns)
    next
      case (Raises e)
      with f have "is_Exception e" by simp
      with Raises r pre sc show ?thesis
        by (simp add: shutdown_contained finish_warning_def)
    qed
  qed
  from a b show ?thesis by blast
qed


lemma stop_once_per_entry_example:
  "fst (stop_auxiliaries (enumerate 0 example_auxiliaries)) = Inr ()
   \<and> filter is_AuxStop (snd (stop_auxiliaries (enumerate 0 example_auxiliaries))) = [AuxStop 0, AuxStop 1]
   \<and> (\<exists>tr. run (example_world example_driver) = Some (Inr True, tr) \<and>
            filter is_AuxStop tr = [AuxStop 0, AuxStop 1])"
proof -
  let ?nm = "''modules.packages.default_browser''"
  let ?pev = "[PackCheck 1, Sleep, PackCheck 2, Sleep, timeout_hit]"
  have "pack_init example_driver = Returns ()" by (simp add: example_driver_def)
  from example_before_start_events[OF this] obtain ev where
    b: "before_start (example_world example_driver) =
       (Inr (example_config, ''http://example.org/'', ?nm, example_driver,
             enumerate 0 example_auxiliaries), ev)" ..
  have s: "pack_start example_driver = Returns ()" by (simp add: example_driver_def)
  have p: "poll (timeout example_config) (pack_check example_driver) ?nm 0 = Some (Timeout, 3, ?pev)"
    by (simp add: example_config_def example_driver_def example_poll)
  have f: "\<forall>e. pack_finish example_driver = Raises e \<longrightarrow> is_Exception e"
    by (simp add: example_driver_def)
  from stop_once_per_entry [of "enumerate 0 example_auxiliaries" "example_world example_driver"
                          example_config "''http://example.org/''" ?nm example_driver ev "()"
                          Timeout 3 ?pev]
       b s p f example_stops_contained
  show ?thesis by (simp add: example_auxiliaries_def)
qed

text \<open>
  Claim C9 (the code does not meet it). \<open>stop()\<close> is called once for every entry of
  \<open>aux_enabled\<close>, and a module can be entered twice: when the constructor of a module
  raises, the variable \<open>aux\<close> still holds the instance of the module before it, and the
  \<open>finally\<close> clause of lines 162 to 165 appends that instance again. For the classes
  \<open>working_auxiliary\<close> and \<open>unbuildable_auxiliary\<close>, in this order, the first module is
  recorded twice and the shutdown calls its \<open>stop()\<close> twice.
\<close>

theorem stale_auxiliary_stopped_twice:
  "start_auxiliaries (enumerate 0 [working_auxiliary, unbuildable_auxiliary]) None [] =
     (Inr [(0, working_auxiliary), (0, working_auxiliary)],
      [AuxInit 0, AuxStart 0, LogInfo ''Started auxiliary module Sniffer'',
       AuxInit 1, LogWarning ''Cannot execute auxiliary module Sniffer: no display'',
       LogInfo ''Started auxiliary module Sniffer''])
   \<and> stop_auxiliaries [(0, working_auxiliary), (0, working_auxiliary)] =
       (Inr (), [AuxStop 0, AuxStop 0])"
  by (simp add: try_start_def handle_start_def working_auxiliary_def unbuildable_auxiliary_def
      is_not_implemented_def is_Exception_def emit_def)

end
